theory Spec2Isabelle
  imports Main "HOL-Library.AList"
begin

section \<open>JavaScript values\<close>

text \<open>
  The library is TypeScript; at run time its state, its messages and the values a selector
  returns are JavaScript values. An object is its address (two objects are \<open>===\<close> exactly
  when they are the same object), its kind, and its own enumerable properties in order.
  An array is an object whose enumerable properties are its indices \<open>''0''\<close>, \<open>''1''\<close>,
  ... (arrays have no holes); an \<open>Error\<close> object has no enumerable property unless one
  is assigned to it, and its message is kept in the kind. Numbers are integers plus
  \<open>NaN\<close>, the one number that is not \<open>===\<close> to itself.
\<close>

datatype okind = Plain | Arr | Err string

datatype jsval =
    VUndef
  | VNull
  | VBool bool
  | VNum int
  | VNaN
  | VStr string
  | VObj nat okind "(string \<times> jsval) list"

type_synonym props = "(string \<times> jsval) list"

fun typeof :: "jsval \<Rightarrow> string" where
  "typeof VUndef = ''undefined''"
| "typeof VNull = ''object''"
| "typeof (VBool b) = ''boolean''"
| "typeof (VNum n) = ''number''"
| "typeof VNaN = ''number''"
| "typeof (VStr s) = ''string''"
| "typeof (VObj r k ps) = ''object''"

text \<open>\<open>!v\<close> is \<open>\<not> truthy v\<close>.\<close>

fun truthy :: "jsval \<Rightarrow> bool" where
  "truthy VUndef = False"
| "truthy VNull = False"
| "truthy (VBool b) = b"
| "truthy (VNum n) = (n \<noteq> 0)"
| "truthy VNaN = False"
| "truthy (VStr s) = (s \<noteq> [])"
| "truthy (VObj r k ps) = True"

text \<open>\<open>a === b\<close>: by value on primitives, by address on objects.\<close>

definition strict_eq :: "jsval \<Rightarrow> jsval \<Rightarrow> bool" where
  "strict_eq a b =
     (case a of
        VObj r k ps \<Rightarrow> (case b of VObj r' k' ps' \<Rightarrow> r = r' | _ \<Rightarrow> False)
      | VNaN \<Rightarrow> False
      | _ \<Rightarrow> a = b)"

fun own_props :: "jsval \<Rightarrow> props" where
  "own_props (VObj r k ps) = ps"
| "own_props v = []"

text \<open>
  The own properties of an object that are not enumerable, as the language defines them:
  the \<open>length\<close> of an array, which is the number of its elements, and the \<open>message\<close>
  of an \<open>Error\<close>. (What an engine adds of its own to an \<open>Error\<close>, such as a
  \<open>stack\<close>, is left out.)
\<close>

fun hidden_props :: "jsval \<Rightarrow> props" where
  "hidden_props (VObj r Arr ps) = [(''length'', VNum (int (length ps)))]"
| "hidden_props (VObj r (Err msg) ps) = [(''message'', VStr msg)]"
| "hidden_props v = []"

text \<open>
  \<open>Object.keys(ob)\<close> lists the enumerable own properties;
  \<open>Object.prototype.hasOwnProperty.call(ob, key)\<close> and the property read \<open>ob[key]\<close> see
  every own property, enumerable or not. What an object inherits from its prototype and
  the properties of a string are not read by the code modelled here. Reading a property
  of \<open>null\<close> or \<open>undefined\<close> throws, and is guarded where the code can meet it.
\<close>

definition keys :: "jsval \<Rightarrow> string list" where
  "keys ob = map fst (own_props ob)"

definition hasOwnProperty :: "jsval \<Rightarrow> string \<Rightarrow> bool" where
  "hasOwnProperty ob key = (key \<in> set (keys ob) \<or> key \<in> set (map fst (hidden_props ob)))"

definition lookup :: "props \<Rightarrow> string \<Rightarrow> jsval" where
  "lookup ps key = (case map_of ps key of None \<Rightarrow> VUndef | Some v \<Rightarrow> v)"

definition get_prop :: "jsval \<Rightarrow> string \<Rightarrow> jsval" where
  "get_prop ob key = lookup (own_props ob @ hidden_props ob) key"

section \<open>State manager: deep equality\<close>

text \<open>
  \<open>StateManager.isEqual\<close>. The \<open>for\<close> loop over \<open>keysA\<close> that returns false at the first
  failing key is the conjunction over the keys.
\<close>

function isEqual :: "jsval \<Rightarrow> jsval \<Rightarrow> bool" where
  "isEqual a b =
     (if strict_eq a b then True
      else if a = VNull \<or> b = VNull then False
      else if typeof a \<noteq> ''object'' \<or> typeof b \<noteq> ''object'' then False
      else if \<not> truthy a \<or> \<not> truthy b then False
      else (let keysA = keys a; keysB = keys b in
            if length keysA \<noteq> length keysB then False
            else list_all (\<lambda>key. hasOwnProperty b key
                             \<and> isEqual (get_prop a key) (get_prop b key)) keysA))"
  by pat_completeness auto
termination
proof -
  have smaller: "size (get_prop a key) < size a" if "key \<in> set (keys a)" for key a
  proof (cases a)
    case (VObj r k ps)
    have "key \<in> set (map fst ps) \<Longrightarrow>
          size (lookup (ps @ hs) key) < Suc (size_list (size_prod (\<lambda>_. 0) size) ps)" for hs
    proof (induction ps)
      case Nil
      then show ?case by simp
    next
      case (Cons p ps)
      then show ?case by (cases p) (force simp: lookup_def)
    qed
    then show ?thesis
      using that VObj by (simp add: keys_def get_prop_def)
  qed (use that in \<open>simp_all add: keys_def\<close>)
  show ?thesis
    by (relation "measure (\<lambda>(a, b). size a)") (auto simp: smaller)
qed

fun is_object :: "jsval \<Rightarrow> bool" where
  "is_object (VObj r k ps) = True"
| "is_object v = False"

text \<open>
  Object keys are unique: a value is well formed when every object in it has distinct keys.
\<close>

fun wf_val :: "jsval \<Rightarrow> bool" where
  "wf_val (VObj r k ps) = (distinct (map fst ps) \<and> (\<forall>p \<in> set ps. wf_val (snd p)))"
| "wf_val v = True"

text \<open>
  The equality of the specification, in its words: two values are equal if identical by
  reference, or both are plain key-value mappings with identical key sets and
  pairwise-equal values (recursive), or primitive \<open>===\<close> equality otherwise; arrays are
  treated as mappings keyed by index. An \<open>Error\<close> object is not a plain key-value
  mapping.
\<close>

fun is_mapping :: "jsval \<Rightarrow> bool" where
  "is_mapping (VObj r Plain ps) = True"
| "is_mapping (VObj r Arr ps) = True"
| "is_mapping v = False"

function struct_eq :: "jsval \<Rightarrow> jsval \<Rightarrow> bool" where
  "struct_eq a b =
     (if strict_eq a b then True
      else if is_mapping a \<and> is_mapping b
      then (if set (keys a) = set (keys b)
            then \<forall>key \<in> set (keys a).
                   struct_eq (lookup (own_props a) key) (lookup (own_props b) key)
            else False)
      else False)"
  by pat_completeness auto
termination
proof -
  have smaller: "size (lookup (own_props a) key) < size a" if "key \<in> set (keys a)" for key a
  proof (cases a)
    case (VObj r k ps)
    have "key \<in> set (map fst ps) \<Longrightarrow>
          size (lookup ps key) < Suc (size_list (size_prod (\<lambda>_. 0) size) ps)"
    proof (induction ps)
      case Nil
      then show ?case by simp
    next
      case (Cons p ps)
      then show ?case by (cases p) (force simp: lookup_def)
    qed
    then show ?thesis
      using that VObj by (simp add: keys_def)
  qed (use that in \<open>simp_all add: keys_def\<close>)
  show ?thesis
    by (relation "measure (\<lambda>(a, b). size a)") (auto simp: smaller)
qed

text \<open>
  Plain data: a value in which every object is a plain object or an array, and no object
  has an enumerable property named \<open>length\<close>.
\<close>

fun plain_data :: "jsval \<Rightarrow> bool" where
  "plain_data (VObj r k ps) =
     (is_mapping (VObj r k ps) \<and> ''length'' \<notin> set (map fst ps)
      \<and> (\<forall>p \<in> set ps. plain_data (snd p)))"
| "plain_data v = True"

section \<open>State manager\<close>

text \<open>
  \<open>{ ...a, ...b }\<close>: the own properties of \<open>a\<close>, then each property of \<open>b\<close> assigned in
  order (an existing key keeps its place and takes the new value, a new key is appended).
  \<open>{ ...a }\<close> has exactly the properties of \<open>a\<close>.
\<close>

definition spread :: "props \<Rightarrow> props \<Rightarrow> props" where
  "spread a b = foldl (\<lambda>acc (key, v). AList.update key v acc) a b"

text \<open>\<open>Set.add\<close> on a set kept in insertion order.\<close>

definition set_add :: "'a \<Rightarrow> 'a list \<Rightarrow> 'a list" where
  "set_add x xs = (if x \<in> set xs then xs else xs @ [x])"

text \<open>
  \<open>initialState\<close>; its \<open>devices\<close> array is the object at address 0.
\<close>

definition initialState :: props where
  "initialState =
     [(''isAvailable'', VBool False),
      (''isCasting'', VBool False),
      (''isConnecting'', VBool False),
      (''isScanning'', VBool False),
      (''deviceName'', VNull),
      (''deviceId'', VNull),
      (''sessionId'', VNull),
      (''devices'', VObj 0 Arr []),
      (''error'', VNull)]"

text \<open>
  Listeners and selector functions are callbacks, identified by a number (their identity as
  function objects). A call of a listener is recorded in \<open>calls\<close>: a global listener
  receives a copy of the state, a selector's listener the selector's new value. A
  listener is taken to return normally and not to call the state manager while it runs.
\<close>

datatype call = ListenerCall nat props | SelectorCall nat nat jsval

record selectorState =
  sel_fn :: "jsval \<Rightarrow> jsval"
  sel_value :: jsval
  sel_listeners :: "nat list"

text \<open>
  \<open>state\<close> holds the properties of \<open>this.state\<close> and \<open>stateRef\<close> its address: every
  \<open>setState\<close> builds a new object, at the next free address \<open>heap\<close>.
\<close>

record state_manager =
  state :: props
  stateRef :: nat
  heap :: nat
  listeners :: "nat list"
  selectors :: "(nat \<times> selectorState) list"
  calls :: "call list"

datatype updater = Partial props | Updater "props \<Rightarrow> props"

definition new_StateManager :: "nat \<Rightarrow> props \<Rightarrow> state_manager" where
  "new_StateManager h init =
     \<lparr>state = spread [] init, stateRef = h, heap = Suc h,
      listeners = [], selectors = [], calls = []\<rparr>"

definition this_state :: "state_manager \<Rightarrow> jsval" where
  "this_state sm = VObj (stateRef sm) Plain (state sm)"

text \<open>\<open>getState()\<close> returns \<open>{ ...this.state }\<close>, a copy with the same properties.\<close>

definition getState :: "state_manager \<Rightarrow> props" where
  "getState sm = state sm"

definition subscribe :: "state_manager \<Rightarrow> nat \<Rightarrow> state_manager" where
  "subscribe sm listener = sm\<lparr>listeners := set_add listener (listeners sm)\<rparr>"

definition unsubscribe :: "state_manager \<Rightarrow> nat \<Rightarrow> state_manager" where
  "unsubscribe sm listener = sm\<lparr>listeners := removeAll listener (listeners sm)\<rparr>"

definition select :: "state_manager \<Rightarrow> nat \<Rightarrow> (jsval \<Rightarrow> jsval) \<Rightarrow> nat \<Rightarrow> state_manager" where
  "select sm sid selector listener =
     (let selectorState =
            (case map_of (selectors sm) sid of
               None \<Rightarrow> \<lparr>sel_fn = selector, sel_value = selector (this_state sm), sel_listeners = []\<rparr>
             | Some e \<Rightarrow> e)
      in sm\<lparr>selectors :=
              AList.update sid
                (selectorState\<lparr>sel_listeners := set_add listener (sel_listeners selectorState)\<rparr>)
                (selectors sm)\<rparr>)"

text \<open>The unsubscribe function returned by \<open>select\<close>.\<close>

definition unselect :: "state_manager \<Rightarrow> nat \<Rightarrow> nat \<Rightarrow> state_manager" where
  "unselect sm sid listener =
     (case map_of (selectors sm) sid of
        None \<Rightarrow> sm
      | Some e \<Rightarrow>
          (let ls = removeAll listener (sel_listeners e) in
           if length ls = 0 then sm\<lparr>selectors := AList.delete sid (selectors sm)\<rparr>
           else sm\<lparr>selectors := AList.update sid (e\<lparr>sel_listeners := ls\<rparr>) (selectors sm)\<rparr>))"

text \<open>A selector that reads one field of the state, \<open>(state) => state[key]\<close>.\<close>

definition sel_field :: "string \<Rightarrow> jsval \<Rightarrow> jsval" where
  "sel_field key st = get_prop st key"

text \<open>
  The second loop of \<open>notifyListeners\<close>: every selector is recomputed on \<open>this.state\<close>; when
  \<open>isEqual\<close> says the value changed, the cache is replaced and the selector's listeners
  are called.
\<close>

fun notify_selectors ::
  "jsval \<Rightarrow> (nat \<times> selectorState) list \<Rightarrow> (nat \<times> selectorState) list \<times> call list" where
  "notify_selectors st [] = ([], [])"
| "notify_selectors st ((sid, e) # rest) =
     (let newValue = sel_fn e st;
          (rest', cs) = notify_selectors st rest
      in if \<not> isEqual (sel_value e) newValue
         then ((sid, e\<lparr>sel_value := newValue\<rparr>) # rest',
               map (\<lambda>listener. SelectorCall sid listener newValue) (sel_listeners e) @ cs)
         else ((sid, e) # rest', cs))"

text \<open>The cache entry of a selector after one pass of that loop over state \<open>st\<close>.\<close>

definition recomputed :: "selectorState \<Rightarrow> jsval \<Rightarrow> selectorState" where
  "recomputed e st =
     (if isEqual (sel_value e) (sel_fn e st) then e else e\<lparr>sel_value := sel_fn e st\<rparr>)"

definition notifyListeners :: "state_manager \<Rightarrow> state_manager" where
  "notifyListeners sm =
     (let global = map (\<lambda>listener. ListenerCall listener (getState sm)) (listeners sm);
          (sels, cs) = notify_selectors (this_state sm) (selectors sm)
      in sm\<lparr>selectors := sels, calls := calls sm @ global @ cs\<rparr>)"

definition setState :: "state_manager \<Rightarrow> updater \<Rightarrow> state_manager" where
  "setState sm updater =
     (let updates = (case updater of Updater f \<Rightarrow> f (getState sm) | Partial p \<Rightarrow> p)
      in notifyListeners
           (sm\<lparr>state := spread (state sm) updates, stateRef := heap sm, heap := Suc (heap sm)\<rparr>))"

text \<open>A sequence of \<open>setState\<close> calls, and the states \<open>this.state\<close> it goes through.\<close>

fun setStates :: "state_manager \<Rightarrow> updater list \<Rightarrow> state_manager" where
  "setStates sm [] = sm"
| "setStates sm (u # us) = setStates (setState sm u) us"

fun states_after :: "state_manager \<Rightarrow> updater list \<Rightarrow> jsval list" where
  "states_after sm [] = []"
| "states_after sm (u # us) = this_state (setState sm u) # states_after (setState sm u) us"

text \<open>The values with which listener \<open>l\<close> of selector \<open>sid\<close> was called, in order.\<close>

fun notified :: "nat \<Rightarrow> nat \<Rightarrow> call list \<Rightarrow> jsval list" where
  "notified sid l [] = []"
| "notified sid l (SelectorCall sid' l' v # cs) =
     (if sid' = sid \<and> l' = l then v # notified sid l cs else notified sid l cs)"
| "notified sid l (ListenerCall l' st # cs) = notified sid l cs"

text \<open>
  What the specification asks of a selector subscription: starting from the cached value,
  each recomputed value that differs from the cache (under the given equality) is
  delivered and becomes the cache; an equal one is not delivered.
\<close>

fun deliveries :: "(jsval \<Rightarrow> jsval \<Rightarrow> bool) \<Rightarrow> jsval \<Rightarrow> jsval list \<Rightarrow> jsval list" where
  "deliveries eq cached [] = []"
| "deliveries eq cached (v # vs) =
     (if eq cached v then deliveries eq cached vs else v # deliveries eq v vs)"

text \<open>
  The invariants that \<open>Map\<close> and \<open>Set\<close> give: one entry per selector, each listener once.
\<close>

definition wf_selectors :: "state_manager \<Rightarrow> bool" where
  "wf_selectors sm =
     (distinct (map fst (selectors sm))
      \<and> (\<forall>p \<in> set (selectors sm). distinct (sel_listeners (snd p))))"

section \<open>Protocol\<close>

text \<open>
  Outbound messages have the TypeScript type \<open>BaseMessage\<close>. Inbound data is whatever
  arrives on the window, a JavaScript value, until \<open>validateMessage\<close> has accepted it.
\<close>

record BaseMessage =
  m_type :: string
  m_payload :: jsval
  m_requestId :: "string option"

text \<open>
  The schemas of \<open>protocol.ts\<close>, read as zod 3 parses them: \<open>z.object\<close> and \<open>z.record\<close>
  want a non-null object that is not an array and ignore unknown keys, a missing key is the
  value \<open>undefined\<close>, \<open>z.number()\<close> rejects \<open>NaN\<close>, \<open>z.any()\<close> accepts everything
  (so the \<open>error\<close> field of a session update is unconstrained), and \<open>z.array\<close> parses
  each element.
\<close>

fun z_object :: "jsval \<Rightarrow> bool" where
  "z_object (VObj r k ps) = (k \<noteq> Arr)"
| "z_object v = False"

fun z_string :: "jsval \<Rightarrow> bool" where
  "z_string (VStr s) = True"
| "z_string v = False"

fun z_boolean :: "jsval \<Rightarrow> bool" where
  "z_boolean (VBool b) = True"
| "z_boolean v = False"

fun z_number :: "jsval \<Rightarrow> bool" where
  "z_number (VNum n) = True"
| "z_number v = False"

definition z_optional :: "(jsval \<Rightarrow> bool) \<Rightarrow> jsval \<Rightarrow> bool" where
  "z_optional schema v = (v = VUndef \<or> schema v)"

fun z_array :: "(jsval \<Rightarrow> bool) \<Rightarrow> jsval \<Rightarrow> bool" where
  "z_array schema (VObj r k ps) = (k = Arr \<and> list_all schema (map snd ps))"
| "z_array schema v = False"

definition z_literal :: "string \<Rightarrow> jsval \<Rightarrow> bool" where
  "z_literal s v = (v = VStr s)"

definition z_enum :: "string list \<Rightarrow> jsval \<Rightarrow> bool" where
  "z_enum ss v = (case v of VStr s \<Rightarrow> s \<in> set ss | _ \<Rightarrow> False)"

definition deviceSchema :: "jsval \<Rightarrow> bool" where
  "deviceSchema d =
     (z_object d \<and> z_string (get_prop d ''id'') \<and> z_string (get_prop d ''name'')
      \<and> z_string (get_prop d ''type'') \<and> z_boolean (get_prop d ''isConnected''))"

text \<open>
  \<open>baseMessageSchema.extend({type: z.literal(t), payload: ...})\<close>: the \<open>requestId\<close> of the
  base schema stays an optional string.
\<close>

definition baseMessageSchema_extend :: "string \<Rightarrow> (jsval \<Rightarrow> bool) \<Rightarrow> jsval \<Rightarrow> bool" where
  "baseMessageSchema_extend t payloadSchema m =
     (z_object m \<and> z_literal t (get_prop m ''type'') \<and> payloadSchema (get_prop m ''payload'')
      \<and> z_optional z_string (get_prop m ''requestId''))"

definition castReadySchema :: "jsval \<Rightarrow> bool" where
  "castReadySchema = baseMessageSchema_extend ''CAST_READY'' (\<lambda>p.
     z_object p \<and> z_string (get_prop p ''gameId'')
     \<and> z_optional z_string (get_prop p ''roomCode'')
     \<and> z_optional z_string (get_prop p ''broadcastUrl'')
     \<and> z_optional (z_array z_string) (get_prop p ''capabilities''))"

definition castInitializedSchema :: "jsval \<Rightarrow> bool" where
  "castInitializedSchema = baseMessageSchema_extend ''CAST_INITIALIZED'' (\<lambda>p.
     z_object p \<and> z_boolean (get_prop p ''available'')
     \<and> z_optional (z_array deviceSchema) (get_prop p ''devices''))"

definition castScanDevicesSchema :: "jsval \<Rightarrow> bool" where
  "castScanDevicesSchema = baseMessageSchema_extend ''CAST_SCAN_DEVICES'' z_object"

definition castDevicesUpdatedSchema :: "jsval \<Rightarrow> bool" where
  "castDevicesUpdatedSchema = baseMessageSchema_extend ''CAST_DEVICES_UPDATED'' (\<lambda>p.
     z_object p \<and> z_array deviceSchema (get_prop p ''devices''))"

definition castStartSessionSchema :: "jsval \<Rightarrow> bool" where
  "castStartSessionSchema = baseMessageSchema_extend ''CAST_START_SESSION'' (\<lambda>p.
     z_object p \<and> z_string (get_prop p ''deviceId'')
     \<and> z_optional z_object (get_prop p ''initialState''))"

definition castSessionUpdatedSchema :: "jsval \<Rightarrow> bool" where
  "castSessionUpdatedSchema = baseMessageSchema_extend ''CAST_SESSION_UPDATED'' (\<lambda>p.
     z_object p
     \<and> z_enum [''connecting'', ''connected'', ''terminated'', ''error''] (get_prop p ''status'')
     \<and> z_string (get_prop p ''deviceId'') \<and> z_string (get_prop p ''deviceName'')
     \<and> z_string (get_prop p ''sessionId''))"

definition castEndSessionSchema :: "jsval \<Rightarrow> bool" where
  "castEndSessionSchema = baseMessageSchema_extend ''CAST_END_SESSION'' z_object"

definition castStateUpdateSchema :: "jsval \<Rightarrow> bool" where
  "castStateUpdateSchema = baseMessageSchema_extend ''CAST_STATE_UPDATE'' (\<lambda>p.
     z_object p \<and> z_object (get_prop p ''state'')
     \<and> z_optional z_number (get_prop p ''timestamp''))"

definition castStateConfirmedSchema :: "jsval \<Rightarrow> bool" where
  "castStateConfirmedSchema = baseMessageSchema_extend ''CAST_STATE_CONFIRMED'' (\<lambda>p.
     z_object p \<and> z_string (get_prop p ''status'')
     \<and> z_optional z_number (get_prop p ''timestamp''))"

definition castErrorSchema :: "jsval \<Rightarrow> bool" where
  "castErrorSchema = baseMessageSchema_extend ''CAST_ERROR'' (\<lambda>p.
     z_object p \<and> z_string (get_prop p ''code'') \<and> z_string (get_prop p ''message'')
     \<and> z_optional z_object (get_prop p ''details''))"

text \<open>\<open>messageSchema.parse\<close> succeeds when one schema of the union does.\<close>

definition validateMessage :: "jsval \<Rightarrow> bool" where
  "validateMessage message =
     (castReadySchema message \<or> castInitializedSchema message
      \<or> castScanDevicesSchema message \<or> castDevicesUpdatedSchema message
      \<or> castStartSessionSchema message \<or> castSessionUpdatedSchema message
      \<or> castEndSessionSchema message \<or> castStateUpdateSchema message
      \<or> castStateConfirmedSchema message \<or> castErrorSchema message)"

text \<open>
  \<open>createMessage\<close>: a message without a (truthy) \<open>requestId\<close> gets the one that
  \<open>generateRequestId()\<close> returns, here the argument \<open>generated\<close> (it comes from
  \<open>Math.random\<close>).
\<close>

definition no_requestId :: "string option \<Rightarrow> bool" where
  "no_requestId rid = (case rid of None \<Rightarrow> True | Some s \<Rightarrow> s = [])"

definition createMessage :: "string \<Rightarrow> BaseMessage \<Rightarrow> BaseMessage" where
  "createMessage generated message =
     (if no_requestId (m_requestId message) then message\<lparr>m_requestId := Some generated\<rparr>
      else message)"

section \<open>WebView bridge\<close>

text \<open>
  Every \<open>new Error(...)\<close> of the bridge is a constructor here; the timeout error keeps the
  timeout and the message type that its text is built from.
\<close>

datatype bridge_error =
    RequestIdRequired
  | RequestTimedOut nat string
  | MessageMissingRequestId
  | BridgeDisposed

datatype promise_state = Pending | Resolved jsval | Rejected bridge_error

text \<open>
  A pending request holds the \<open>resolve\<close> and \<open>reject\<close> functions of its promise (the
  promise's number) and its timer. A timer is the closure passed to \<open>setTimeout\<close>: the
  message, the timeout and the \<open>reject\<close> of the promise it was created for.
\<close>

record pending_request =
  pr_promise :: nat
  pr_timer :: nat

record timer_closure =
  t_message :: BaseMessage
  t_timeout :: nat
  t_promise :: nat

text \<open>
  A listener on the window is the bridge's own \<open>handleMessage\<close> or a listener handed to
  \<open>addEventListener\<close>, identified by a number.
\<close>

datatype wlistener = HandleMessage | UserListener nat

text \<open>
  The bridge with the part of its environment that it acts on: the promises it created,
  the timers armed and neither fired nor cleared, the listeners registered on the window,
  the calls of \<open>window.postMessage\<close>, and the calls received by the listeners registered
  through \<open>addEventListener\<close>. \<open>console\<close> output in debug mode is left out.
\<close>

record bridge =
  pendingRequests :: "(string \<times> pending_request) list"
  targetOrigin :: string
  timeout :: nat
  debug :: bool
  promises :: "(nat \<times> promise_state) list"
  timers :: "(nat \<times> timer_closure) list"
  nextId :: nat
  window_listeners :: "(string \<times> wlistener) list"
  posted :: "(BaseMessage \<times> string) list"
  delivered :: "(nat \<times> jsval) list"

definition window_addEventListener :: "bridge \<Rightarrow> string \<Rightarrow> wlistener \<Rightarrow> bridge" where
  "window_addEventListener b ty l = b\<lparr>window_listeners := set_add (ty, l) (window_listeners b)\<rparr>"

definition window_removeEventListener :: "bridge \<Rightarrow> string \<Rightarrow> wlistener \<Rightarrow> bridge" where
  "window_removeEventListener b ty l =
     b\<lparr>window_listeners := removeAll (ty, l) (window_listeners b)\<rparr>"

definition setupMessageListener :: "bridge \<Rightarrow> bridge" where
  "setupMessageListener b = window_addEventListener b ''message'' HandleMessage"

text \<open>
  The constructor, with \<open>DEFAULT_OPTIONS\<close> overridden by the options given, on a window
  that has no listener yet.
\<close>

definition new_WebViewBridge :: "string option \<Rightarrow> nat option \<Rightarrow> bool option \<Rightarrow> bridge" where
  "new_WebViewBridge origin_opt timeout_opt debug_opt =
     setupMessageListener
       \<lparr>pendingRequests = [],
        targetOrigin = (case origin_opt of None \<Rightarrow> ''*'' | Some x \<Rightarrow> x),
        timeout = (case timeout_opt of None \<Rightarrow> 5000 | Some t \<Rightarrow> t),
        debug = (case debug_opt of None \<Rightarrow> False | Some d \<Rightarrow> d),
        promises = [], timers = [], nextId = 0,
        window_listeners = [], posted = [], delivered = []\<rparr>"

definition sendMessage :: "bridge \<Rightarrow> BaseMessage \<Rightarrow> bridge" where
  "sendMessage b message = b\<lparr>posted := posted b @ [(message, targetOrigin b)]\<rparr>"

text \<open>Calling the \<open>resolve\<close> or \<open>reject\<close> of a promise settles it only if it is pending.\<close>

definition settle :: "bridge \<Rightarrow> nat \<Rightarrow> promise_state \<Rightarrow> bridge" where
  "settle b p outcome =
     (case map_of (promises b) p of
        Some Pending \<Rightarrow> b\<lparr>promises := AList.update p outcome (promises b)\<rparr>
      | _ \<Rightarrow> b)"

text \<open>
  \<open>sendMessageWithResponse\<close> throws (\<open>Inl\<close>) or returns the new promise (\<open>Inr\<close>). The
  promise takes the number \<open>nextId\<close> and the timer the one after it.
\<close>

definition sendMessageWithResponse ::
  "bridge \<Rightarrow> BaseMessage \<Rightarrow> nat option \<Rightarrow> (bridge_error + nat) \<times> bridge" where
  "sendMessageWithResponse b message timeout_arg =
     (let ms = (case timeout_arg of None \<Rightarrow> timeout b | Some t \<Rightarrow> t) in
      if no_requestId (m_requestId message) then (Inl RequestIdRequired, b)
      else
        (let p = nextId b;
             timer = Suc (nextId b);
             b1 = b\<lparr>promises := AList.update p Pending (promises b),
                    timers := AList.update timer
                      \<lparr>t_message = message, t_timeout = ms, t_promise = p\<rparr> (timers b),
                    nextId := Suc (Suc (nextId b))\<rparr>;
             b2 = (if \<not> no_requestId (m_requestId message)
                   then b1\<lparr>pendingRequests :=
                            AList.update (the (m_requestId message))
                              \<lparr>pr_promise = p, pr_timer = timer\<rparr> (pendingRequests b1)\<rparr>
                   else settle b1 p (Rejected MessageMissingRequestId))
         in (Inr p, sendMessage b2 message)))"

text \<open>The timer callback, run when timer \<open>timer\<close> expires; a cleared timer never runs.\<close>

definition timer_fires :: "bridge \<Rightarrow> nat \<Rightarrow> bridge" where
  "timer_fires b timer =
     (case map_of (timers b) timer of
        None \<Rightarrow> b
      | Some c \<Rightarrow>
          (let b1 = b\<lparr>timers := AList.delete timer (timers b)\<rparr>;
               b2 = (if \<not> no_requestId (m_requestId (t_message c))
                     then b1\<lparr>pendingRequests :=
                              AList.delete (the (m_requestId (t_message c))) (pendingRequests b1)\<rparr>
                     else b1)
           in settle b2 (t_promise c)
                (Rejected (RequestTimedOut (t_timeout c) (m_type (t_message c))))))"

definition addEventListener :: "bridge \<Rightarrow> string \<Rightarrow> nat \<Rightarrow> bridge" where
  "addEventListener b ty listener = window_addEventListener b ty (UserListener listener)"

definition removeEventListener :: "bridge \<Rightarrow> string \<Rightarrow> nat \<Rightarrow> bridge" where
  "removeEventListener b ty listener = window_removeEventListener b ty (UserListener listener)"

text \<open>
  \<open>handleMessage\<close> on the data of a message event. \<open>message.payload || {}\<close> makes a new
  empty object (at the address \<open>nextId\<close>) when the payload is falsy.
\<close>

definition handleMessage :: "bridge \<Rightarrow> jsval \<Rightarrow> bridge" where
  "handleMessage b message =
     (if \<not> validateMessage message then b
      else
        (case get_prop message ''requestId'' of
           VStr rid \<Rightarrow>
             (if rid \<noteq> [] \<and> rid \<in> set (map fst (pendingRequests b)) then
                (case map_of (pendingRequests b) rid of
                   None \<Rightarrow> b
                 | Some pendingRequest \<Rightarrow>
                     (let b1 = b\<lparr>timers := AList.delete (pr_timer pendingRequest) (timers b)\<rparr>;
                          b2 = b1\<lparr>pendingRequests := AList.delete rid (pendingRequests b1)\<rparr>
                      in if truthy (get_prop message ''payload'')
                         then settle b2 (pr_promise pendingRequest)
                                (Resolved (get_prop message ''payload''))
                         else settle (b2\<lparr>nextId := Suc (nextId b2)\<rparr>) (pr_promise pendingRequest)
                                (Resolved (VObj (nextId b2) Plain []))))
              else b)
         | _ \<Rightarrow> b))"

text \<open>\<open>dispose\<close>: the loop over \<open>pendingRequests.values()\<close>, then \<open>clear\<close>.\<close>

definition dispose :: "bridge \<Rightarrow> bridge" where
  "dispose b =
     (let b1 = window_removeEventListener b ''message'' HandleMessage;
          b2 = foldl (\<lambda>acc (rid, pr).
                  settle (acc\<lparr>timers := AList.delete (pr_timer pr) (timers acc)\<rparr>)
                    (pr_promise pr) (Rejected BridgeDisposed))
                b1 (pendingRequests b1)
      in b2\<lparr>pendingRequests := []\<rparr>)"

text \<open>
  The window dispatching a message event with data \<open>message\<close>: every listener registered
  for \<open>''message''\<close> is called, in the order of registration.
\<close>

fun call_listener :: "jsval \<Rightarrow> bridge \<Rightarrow> wlistener \<Rightarrow> bridge" where
  "call_listener message b HandleMessage = handleMessage b message"
| "call_listener message b (UserListener l) = b\<lparr>delivered := delivered b @ [(l, message)]\<rparr>"

definition message_listeners :: "bridge \<Rightarrow> wlistener list" where
  "message_listeners b = map snd (filter (\<lambda>(ty, l). ty = ''message'') (window_listeners b))"

definition dispatch_message :: "bridge \<Rightarrow> jsval \<Rightarrow> bridge" where
  "dispatch_message b message = foldl (call_listener message) b (message_listeners b)"

text \<open>The listeners among \<open>ls\<close> that were registered through \<open>addEventListener\<close>.\<close>

fun user_listeners :: "wlistener list \<Rightarrow> nat list" where
  "user_listeners [] = []"
| "user_listeners (HandleMessage # ls) = user_listeners ls"
| "user_listeners (UserListener l # ls) = l # user_listeners ls"

text \<open>What can happen to a bridge, and a run of such events.\<close>

datatype bridge_event =
    MessageEvent jsval
  | TimerFires nat
  | SendWithResponse BaseMessage "nat option"
  | AddListener string nat
  | RemoveListener string nat
  | Dispose

fun bridge_step :: "bridge \<Rightarrow> bridge_event \<Rightarrow> bridge" where
  "bridge_step b (MessageEvent message) = dispatch_message b message"
| "bridge_step b (TimerFires timer) = timer_fires b timer"
| "bridge_step b (SendWithResponse message t) = snd (sendMessageWithResponse b message t)"
| "bridge_step b (AddListener ty l) = addEventListener b ty l"
| "bridge_step b (RemoveListener ty l) = removeEventListener b ty l"
| "bridge_step b Dispose = dispose b"

definition bridge_run :: "bridge \<Rightarrow> bridge_event list \<Rightarrow> bridge" where
  "bridge_run b es = foldl bridge_step b es"

text \<open>
  Promise numbers and timer numbers in use are below \<open>nextId\<close>, so that a new promise
  and a new timer are new.
\<close>

definition ids_fresh :: "bridge \<Rightarrow> bool" where
  "ids_fresh b =
     ((\<forall>p \<in> set (map fst (promises b)). p < nextId b)
      \<and> (\<forall>t \<in> set (map fst (timers b)). t < nextId b)
      \<and> (\<forall>c \<in> set (map snd (timers b)). t_promise c < nextId b)
      \<and> (\<forall>pr \<in> set (map snd (pendingRequests b)).
            pr_promise pr < nextId b \<and> pr_timer pr < nextId b))"

text \<open>
  A request in flight: its timer \<open>t\<close> is armed with closure \<open>c\<close>, its promise \<open>p\<close> is
  pending, and no other timer and no pending request under another id refers to them.
\<close>

definition in_flight :: "bridge \<Rightarrow> string \<Rightarrow> nat \<Rightarrow> nat \<Rightarrow> timer_closure \<Rightarrow> bool" where
  "in_flight b rid p t c =
     (map_of (timers b) t = Some c \<and> t_promise c = p
      \<and> map_of (promises b) p = Some Pending
      \<and> (\<forall>e \<in> set (pendingRequests b).
            pr_timer (snd e) = t \<or> pr_promise (snd e) = p \<longrightarrow> fst e = rid)
      \<and> (\<forall>e \<in> set (timers b). t_promise (snd e) = p \<longrightarrow> fst e = t))"

text \<open>
  An event during which the request \<open>rid\<close> with timer \<open>t\<close> gets no answer: not a valid
  message carrying \<open>rid\<close>, not the expiry of \<open>t\<close>, not the disposal of the bridge.
\<close>

fun quiet :: "string \<Rightarrow> nat \<Rightarrow> bridge_event \<Rightarrow> bool" where
  "quiet rid t (MessageEvent message) =
     (\<not> (validateMessage message \<and> get_prop message ''requestId'' = VStr rid))"
| "quiet rid t (TimerFires t') = (t' \<noteq> t)"
| "quiet rid t Dispose = False"
| "quiet rid t ev = True"

section \<open>Client\<close>

text \<open>
  The client holds a \<open>Bridge\<close> (an interface), its state manager and its log. What it does
  to the bridge is recorded in \<open>sent\<close>: each call of \<open>bridge.sendMessageWithResponse\<close>,
  with the state the client was in at that moment. A log entry keeps type, message and
  data (its timestamp is the clock's). Objects that the client creates and that stay
  reachable (in the state, in a message, in the log) take the next free address.
\<close>

record log_entry =
  l_type :: string
  l_message :: string
  l_data :: jsval

record client =
  stateManager :: state_manager
  logs :: "log_entry list"
  sent :: "(BaseMessage \<times> props) list"

text \<open>
  How the promise returned by \<open>bridge.sendMessageWithResponse\<close> settles (a call that throws
  at once is caught by the same \<open>catch\<close> as a rejection), and how an operation ends.
\<close>

datatype outcome = Resolves jsval | Rejects jsval

datatype result = Returned | Thrown jsval

definition alloc :: "client \<Rightarrow> nat \<times> client" where
  "alloc c =
     (heap (stateManager c),
      c\<lparr>stateManager := (stateManager c)\<lparr>heap := Suc (heap (stateManager c))\<rparr>\<rparr>)"

definition nullish :: "jsval \<Rightarrow> bool" where
  "nullish v = (v = VUndef \<or> v = VNull)"

definition log :: "client \<Rightarrow> string \<Rightarrow> string \<Rightarrow> jsval \<Rightarrow> client" where
  "log c ty message data =
     c\<lparr>logs := logs c @ [\<lparr>l_type = ty, l_message = message, l_data = data\<rparr>]\<rparr>"

definition client_setState :: "client \<Rightarrow> props \<Rightarrow> client" where
  "client_setState c updates = c\<lparr>stateManager := setState (stateManager c) (Partial updates)\<rparr>"

definition client_getState :: "client \<Rightarrow> props" where
  "client_getState c = getState (stateManager c)"

definition client_subscribe :: "client \<Rightarrow> nat \<Rightarrow> client" where
  "client_subscribe c listener = c\<lparr>stateManager := subscribe (stateManager c) listener\<rparr>"

definition bridge_sendMessageWithResponse :: "client \<Rightarrow> BaseMessage \<Rightarrow> client" where
  "bridge_sendMessageWithResponse c message =
     c\<lparr>sent := sent c @ [(message, client_getState c)]\<rparr>"

text \<open>The constructor; the data of its log entry is a new object.\<close>

definition new_CastKitClient :: "bool \<Rightarrow> bool \<Rightarrow> client" where
  "new_CastKitClient debug_opt inApp =
     (let c = \<lparr>stateManager = new_StateManager 1 initialState, logs = [], sent = []\<rparr>;
          (r, c1) = alloc c;
          (r', c2) = alloc c1
      in log c2 ''info'' ''CastKitClient initialized''
           (VObj r Plain [(''options'', VObj r' Plain [(''debug'', VBool debug_opt)]),
                          (''isInOpenGameApp'', VBool inApp)]))"

definition handleError :: "client \<Rightarrow> string \<Rightarrow> jsval \<Rightarrow> client" where
  "handleError c message error =
     (let c1 = log c ''error'' message error;
          (r, c2) = alloc c1;
          (r', c3) = alloc c2;
          castError = VObj r Plain
            [(''code'', VStr ''BRIDGE_ERROR''),
             (''message'', VStr message),
             (''details'', VObj r' Plain [(''originalError'', error)])]
      in client_setState c3 [(''error'', castError)])"

text \<open>
  Each asynchronous operation is its synchronous part up to the \<open>await\<close> (\<open>_begin\<close>; the
  \<open>requestId\<close> that \<open>createMessage\<close> generates is an argument) and its continuation when
  the awaited promise settles (\<open>_resume\<close>). Inbound events may be handled in between.
\<close>

definition signalReady_begin :: "client \<Rightarrow> jsval \<Rightarrow> string \<Rightarrow> client" where
  "signalReady_begin c params rid =
     (let c1 = log c ''info'' ''Signaling ready to cast'' params;
          (r, c2) = alloc c1;
          message = createMessage rid
            \<lparr>m_type = ''CAST_READY'',
             m_payload = VObj r Plain
               [(''gameId'', get_prop params ''gameId''),
                (''roomCode'', get_prop params ''roomCode''),
                (''broadcastUrl'', get_prop params ''broadcastUrl''),
                (''capabilities'', get_prop params ''capabilities'')],
             m_requestId = None\<rparr>
      in bridge_sendMessageWithResponse c2 message)"

text \<open>
  \<open>response.payload\<close> is a \<open>TypeError\<close> when the response is \<open>null\<close> or \<open>undefined\<close>; it is
  thrown inside the \<open>try\<close>.
\<close>

definition signalReady_resume :: "client \<Rightarrow> outcome \<Rightarrow> client \<times> result" where
  "signalReady_resume c out =
     (case out of
        Rejects error \<Rightarrow> (handleError c ''Failed to signal readiness'' error, Thrown error)
      | Resolves response \<Rightarrow>
          if nullish response then
            (let (r, c1) = alloc c;
                 error = VObj r (Err ''TypeError'') []
             in (handleError c1 ''Failed to signal readiness'' error, Thrown error))
          else
            (let payload = get_prop response ''payload'';
                 available = (if nullish payload then VUndef else get_prop payload ''available'');
                 (r, c1) = alloc c;
                 c2 = log c1 ''info'' ''Cast availability'' (VObj r Plain [(''available'', available)]);
                 devices = (if nullish payload then VUndef else get_prop payload ''devices'');
                 (r', c3) = (if truthy devices then (0, c2) else alloc c2)
             in (client_setState c3
                   [(''isAvailable'', if nullish available then VBool False else available),
                    (''devices'', if truthy devices then devices else VObj r' Arr [])],
                 Returned)))"

definition scanForDevices_begin :: "client \<Rightarrow> string \<Rightarrow> client" where
  "scanForDevices_begin c rid =
     (let c1 = log c ''info'' ''Scanning for cast devices'' VUndef;
          c2 = client_setState c1 [(''isScanning'', VBool True)];
          (r, c3) = alloc c2;
          message = createMessage rid
            \<lparr>m_type = ''CAST_SCAN_DEVICES'', m_payload = VObj r Plain [], m_requestId = None\<rparr>
      in bridge_sendMessageWithResponse c3 message)"

definition scanForDevices_resume :: "client \<Rightarrow> outcome \<Rightarrow> client \<times> result" where
  "scanForDevices_resume c out =
     (case out of
        Resolves response \<Rightarrow> (c, Returned)
      | Rejects error \<Rightarrow>
          (handleError (client_setState c [(''isScanning'', VBool False)])
             ''Failed to scan for devices'' error,
           Thrown error))"

text \<open>\<open>options\<close> is \<open>undefined\<close> when the caller leaves it out; the default is a new \<open>{}\<close>.\<close>

definition startCasting_begin :: "client \<Rightarrow> string \<Rightarrow> jsval \<Rightarrow> string \<Rightarrow> client" where
  "startCasting_begin c deviceId options_arg rid =
     (let (r0, c0) = (if options_arg = VUndef then alloc c else (0, c));
          options = (if options_arg = VUndef then VObj r0 Plain [] else options_arg);
          (r1, c1) = alloc c0;
          c2 = log c1 ''info'' ''Starting cast session''
                 (VObj r1 Plain [(''deviceId'', VStr deviceId), (''options'', options)]);
          c3 = client_setState c2 [(''isConnecting'', VBool True), (''deviceId'', VStr deviceId)];
          (r2, c4) = alloc c3;
          initialState = get_prop options ''initialState'';
          (r3, c5) = (if truthy initialState then (0, c4) else alloc c4);
          message = createMessage rid
            \<lparr>m_type = ''CAST_START_SESSION'',
             m_payload = VObj r2 Plain
               [(''deviceId'', VStr deviceId),
                (''initialState'', if truthy initialState then initialState else VObj r3 Plain [])],
             m_requestId = None\<rparr>
      in bridge_sendMessageWithResponse c5 message)"

definition startCasting_resume :: "client \<Rightarrow> outcome \<Rightarrow> client \<times> result" where
  "startCasting_resume c out =
     (case out of
        Resolves response \<Rightarrow> (c, Returned)
      | Rejects error \<Rightarrow>
          (handleError
             (client_setState c [(''isConnecting'', VBool False), (''deviceId'', VNull)])
             ''Failed to start casting'' error,
           Thrown error))"

text \<open>
  \<open>stopCasting\<close> returns at once (\<open>Some Returned\<close>) when \<open>sessionId\<close> is falsy, and
  otherwise awaits (\<open>None\<close>).
\<close>

definition stopCasting_begin :: "client \<Rightarrow> string \<Rightarrow> client \<times> result option" where
  "stopCasting_begin c rid =
     (let sessionId = lookup (client_getState c) ''sessionId'' in
      if \<not> truthy sessionId
      then (log c ''warn'' ''No active cast session to stop'' VUndef, Some Returned)
      else
        (let (r, c1) = alloc c;
             c2 = log c1 ''info'' ''Stopping cast session'' (VObj r Plain [(''sessionId'', sessionId)]);
             (r', c3) = alloc c2;
             message = createMessage rid
               \<lparr>m_type = ''CAST_END_SESSION'', m_payload = VObj r' Plain [], m_requestId = None\<rparr>
         in (bridge_sendMessageWithResponse c3 message, None)))"

definition stopCasting_resume :: "client \<Rightarrow> outcome \<Rightarrow> client \<times> result" where
  "stopCasting_resume c out =
     (case out of
        Resolves response \<Rightarrow>
          (client_setState c
             [(''isCasting'', VBool False),
              (''isConnecting'', VBool False),
              (''deviceId'', VNull),
              (''deviceName'', VNull),
              (''sessionId'', VNull)],
           Returned)
      | Rejects error \<Rightarrow> (handleError c ''Failed to stop casting'' error, Thrown error))"

text \<open>
  \<open>sendStateUpdate\<close> throws \<open>new Error('No active cast session')\<close> before its \<open>try\<close> when
  \<open>sessionId\<close> is falsy. \<open>now\<close> is \<open>Date.now()\<close>.
\<close>

definition sendStateUpdate_begin ::
  "client \<Rightarrow> jsval \<Rightarrow> int \<Rightarrow> string \<Rightarrow> client \<times> result option" where
  "sendStateUpdate_begin c st now rid =
     (let sessionId = lookup (client_getState c) ''sessionId'' in
      if \<not> truthy sessionId
      then (let c1 = log c ''warn'' ''No active cast session to update'' VUndef;
                (r, c2) = alloc c1
            in (c2, Some (Thrown (VObj r (Err ''No active cast session'') []))))
      else
        (let (r, c1) = alloc c;
             c2 = log c1 ''info'' ''Sending state update'' (VObj r Plain [(''sessionId'', sessionId)]);
             (r', c3) = alloc c2;
             message = createMessage rid
               \<lparr>m_type = ''CAST_STATE_UPDATE'',
                m_payload = VObj r' Plain [(''state'', st), (''timestamp'', VNum now)],
                m_requestId = None\<rparr>
         in (bridge_sendMessageWithResponse c3 message, None)))"

definition sendStateUpdate_resume :: "client \<Rightarrow> outcome \<Rightarrow> client \<times> result" where
  "sendStateUpdate_resume c out =
     (case out of
        Resolves response \<Rightarrow> (c, Returned)
      | Rejects error \<Rightarrow> (handleError c ''Failed to send state update'' error, Thrown error))"

definition resetError :: "client \<Rightarrow> client" where
  "resetError c = client_setState c [(''error'', VNull)]"

text \<open>
  The listener that \<open>setupEventListeners\<close> registers, applied to the data of a message
  event. Reading a property of a \<open>payload\<close> that is \<open>null\<close> or \<open>undefined\<close> is a
  \<open>TypeError\<close> that ends the listener (after its log entry).
\<close>

datatype completion = Normal | TypeError

definition onMessage :: "client \<Rightarrow> jsval \<Rightarrow> client \<times> completion" where
  "onMessage c message =
     (if \<not> truthy message \<or> \<not> truthy (get_prop message ''type'') then (c, Normal)
      else
        (let ty = get_prop message ''type''; payload = get_prop message ''payload'' in
         if ty = VStr ''CAST_DEVICES_UPDATED'' then
           (let c1 = log c ''info'' ''Devices updated'' payload in
            if nullish payload then (c1, TypeError)
            else
              (let devices = get_prop payload ''devices'';
                   (r, c2) = (if truthy devices then (0, c1) else alloc c1)
               in (client_setState c2
                     [(''isScanning'', VBool False),
                      (''devices'', if truthy devices then devices else VObj r Arr [])],
                   Normal)))
         else if ty = VStr ''CAST_SESSION_UPDATED'' then
           (let c1 = log c ''info'' ''Session updated'' payload in
            if nullish payload then (c1, TypeError)
            else if get_prop payload ''status'' = VStr ''connected'' then
              (client_setState c1
                 [(''isConnecting'', VBool False),
                  (''isCasting'', VBool True),
                  (''deviceId'', get_prop payload ''deviceId''),
                  (''deviceName'', get_prop payload ''deviceName''),
                  (''sessionId'', get_prop payload ''sessionId'')],
               Normal)
            else if get_prop payload ''status'' = VStr ''terminated'' then
              (client_setState c1
                 [(''isCasting'', VBool False),
                  (''isConnecting'', VBool False),
                  (''deviceId'', VNull),
                  (''deviceName'', VNull),
                  (''sessionId'', VNull)],
               Normal)
            else if get_prop payload ''status'' = VStr ''error'' then
              (let (r, c2) = alloc c1 in
               (client_setState c2
                  [(''isCasting'', VBool False),
                   (''isConnecting'', VBool False),
                   (''deviceId'', VNull),
                   (''deviceName'', VNull),
                   (''sessionId'', VNull),
                   (''error'', VObj r Plain
                      [(''code'', VStr ''SESSION_ERROR''),
                       (''message'', if truthy (get_prop payload ''error'')
                                     then get_prop payload ''error'' else VStr ''Session error'')])],
                Normal))
            else (c1, Normal))
         else if ty = VStr ''CAST_ERROR'' then
           (let c1 = log c ''error'' ''Error from cast service'' payload in
            if nullish payload then (c1, TypeError)
            else
              (let (r, c2) = alloc c1 in
               (client_setState c2
                  [(''error'', VObj r Plain
                      [(''code'', get_prop payload ''code''),
                       (''message'', get_prop payload ''message''),
                       (''details'', get_prop payload ''details'')])],
                Normal)))
         else (c, Normal)))"

text \<open>
  The operations of the client, and a run of the client: calls of operations, inbound
  message events, and the settling of the promise that an awaiting operation waits for
  (\<open>Settle i\<close> for the \<open>i\<close>-th operation still awaiting). A configuration is the client
  with the operations that are awaiting; it is settled when none is.
\<close>

datatype operation =
    SignalReady jsval
  | ScanForDevices
  | StartCasting string jsval
  | StopCasting
  | SendStateUpdate jsval int
  | ResetError

fun begin_op :: "client \<Rightarrow> operation \<Rightarrow> string \<Rightarrow> client \<times> result option" where
  "begin_op c (SignalReady params) rid = (signalReady_begin c params rid, None)"
| "begin_op c ScanForDevices rid = (scanForDevices_begin c rid, None)"
| "begin_op c (StartCasting deviceId options) rid = (startCasting_begin c deviceId options rid, None)"
| "begin_op c StopCasting rid = stopCasting_begin c rid"
| "begin_op c (SendStateUpdate st now) rid = sendStateUpdate_begin c st now rid"
| "begin_op c ResetError rid = (resetError c, Some Returned)"

fun resume_op :: "client \<Rightarrow> operation \<Rightarrow> outcome \<Rightarrow> client \<times> result" where
  "resume_op c (SignalReady params) out = signalReady_resume c out"
| "resume_op c ScanForDevices out = scanForDevices_resume c out"
| "resume_op c (StartCasting deviceId options) out = startCasting_resume c out"
| "resume_op c StopCasting out = stopCasting_resume c out"
| "resume_op c (SendStateUpdate st now) out = sendStateUpdate_resume c out"
| "resume_op c ResetError out = (c, Returned)"

datatype step = Call operation string | Event jsval | Settle nat outcome

type_synonym config = "client \<times> operation list"

fun exec_step :: "config \<Rightarrow> step \<Rightarrow> config" where
  "exec_step (c, awaiting) (Call op rid) =
     (case begin_op c op rid of
        (c', None) \<Rightarrow> (c', awaiting @ [op])
      | (c', Some r) \<Rightarrow> (c', awaiting))"
| "exec_step (c, awaiting) (Event message) = (fst (onMessage c message), awaiting)"
| "exec_step (c, awaiting) (Settle i out) =
     (if i < length awaiting
      then (fst (resume_op c (awaiting ! i) out), take i awaiting @ drop (Suc i) awaiting)
      else (c, awaiting))"

definition exec :: "config \<Rightarrow> step list \<Rightarrow> config" where
  "exec cfg steps = foldl exec_step cfg steps"

definition initial_config :: config where
  "initial_config = (new_CastKitClient False True, [])"

text \<open>A property of the client's state, for example \<open>field c ''isCasting''\<close>.\<close>

definition field :: "client \<Rightarrow> string \<Rightarrow> jsval" where
  "field c key = lookup (client_getState c) key"

text \<open>
  A run in which \<open>startCasting\<close> is only called while \<open>isCasting\<close> is not true.
\<close>

fun starts_when_not_casting :: "config \<Rightarrow> step list \<Rightarrow> bool" where
  "starts_when_not_casting cfg [] = True"
| "starts_when_not_casting cfg (s # steps) =
     ((case s of
         Call (StartCasting deviceId options) rid \<Rightarrow> field (fst cfg) ''isCasting'' \<noteq> VBool True
       | _ \<Rightarrow> True)
      \<and> starts_when_not_casting (exec_step cfg s) steps)"

text \<open>\<open>isCasting\<close> and \<open>isConnecting\<close> are not both true.\<close>

definition mutually_exclusive :: "client \<Rightarrow> bool" where
  "mutually_exclusive c =
     (\<not> (field c ''isCasting'' = VBool True \<and> field c ''isConnecting'' = VBool True))"

text \<open>The five properties that describe the session.\<close>

definition session_keys :: "string list" where
  "session_keys = [''isCasting'', ''isConnecting'', ''deviceId'', ''deviceName'', ''sessionId'']"

section \<open>Properties of the state manager\<close>

declare isEqual.simps [simp del] struct_eq.simps [simp del]

lemma keys_eq_iff:
  assumes "distinct xs" "distinct ys"
  shows "(length xs = length ys \<and> set xs \<subseteq> set ys) \<longleftrightarrow> set xs = set ys"
proof
  assume h: "length xs = length ys \<and> set xs \<subseteq> set ys"
  then have "card (set xs) = card (set ys)"
    using assms by (simp add: distinct_card)
  with h show "set xs = set ys"
    by (simp add: card_subset_eq)
next
  assume "set xs = set ys"
  then show "length xs = length ys \<and> set xs \<subseteq> set ys"
    using assms by (metis distinct_card subset_refl)
qed

lemma wf_val_lookup: "distinct (map fst ps) \<Longrightarrow> \<forall>p \<in> set ps. wf_val (snd p) \<Longrightarrow> wf_val (lookup ps key)"
  by (auto simp: lookup_def split: option.splits dest: map_of_SomeD)

lemma isEqual_prim: "\<not> strict_eq a b \<Longrightarrow> is_object a = False \<or> is_object b = False \<Longrightarrow> isEqual a b = False"
  by (subst isEqual.simps) (cases a; cases b; simp)

lemma struct_eq_prim: "\<not> strict_eq a b \<Longrightarrow> is_object a = False \<or> is_object b = False \<Longrightarrow> struct_eq a b = False"
  by (subst struct_eq.simps) (cases a; cases b; simp)

lemma lookup_own: "key \<in> set (map fst ps) \<Longrightarrow> lookup (ps @ hs) key = lookup ps key"
  by (induction ps) (auto simp: lookup_def)

lemma get_prop_own: "key \<in> set (keys a) \<Longrightarrow> get_prop a key = lookup (own_props a) key"
  by (simp add: get_prop_def keys_def lookup_own)

lemma object_facts:
  assumes "is_object a"
  shows "a \<noteq> VNull" "typeof a = ''object''" "truthy a"
  using assms by (cases a; simp)+

lemma isEqual_objects:
  assumes "\<not> strict_eq a b" "is_object a" "is_object b"
  shows "isEqual a b =
    (length (keys a) = length (keys b) \<and>
     (\<forall>key \<in> set (keys a). hasOwnProperty b key
          \<and> isEqual (lookup (own_props a) key) (get_prop b key)))"
  using assms object_facts[of a] object_facts[of b]
  by (subst isEqual.simps) (simp add: list_all_iff get_prop_own Let_def)

lemma struct_eq_objects:
  assumes "\<not> strict_eq a b"
  shows "struct_eq a b =
    (is_mapping a \<and> is_mapping b \<and> set (keys a) = set (keys b) \<and>
     (\<forall>key \<in> set (keys a). struct_eq (lookup (own_props a) key) (lookup (own_props b) key)))"
  using assms by (subst struct_eq.simps) auto

lemma wf_val_keys: "wf_val a \<Longrightarrow> distinct (keys a)"
  by (cases a) (simp_all add: keys_def)

lemma lookup_all:
  assumes "\<forall>p \<in> set ps. P (snd p)" and "P VUndef"
  shows "P (lookup ps key)"
proof (cases "map_of ps key")
  case None
  then show ?thesis
    using assms(2) by (simp add: lookup_def)
next
  case (Some v)
  then have "(key, v) \<in> set ps"
    by (rule map_of_SomeD)
  then have "P (snd (key, v))"
    using assms(1) by blast
  then show ?thesis
    using Some by (simp add: lookup_def)
qed

lemma wf_val_child: "wf_val a \<Longrightarrow> wf_val (lookup (own_props a) key)"
  by (cases a) (simp_all add: lookup_all)

lemma plain_data_child: "plain_data a \<Longrightarrow> plain_data (lookup (own_props a) key)"
  by (cases a) (simp_all add: lookup_all)

lemma is_mapping_object: "is_mapping a \<Longrightarrow> is_object a"
  by (cases a) simp_all

lemma plain_data_mapping: "plain_data a \<Longrightarrow> is_object a \<Longrightarrow> is_mapping a"
  by (cases a) simp_all

lemma plain_data_key: "plain_data a \<Longrightarrow> key \<in> set (keys a) \<Longrightarrow> key \<noteq> ''length''"
  by (cases a) (force simp: keys_def)+

lemma mapping_hasOwnProperty:
  "is_mapping b \<Longrightarrow> key \<noteq> ''length'' \<Longrightarrow> hasOwnProperty b key = (key \<in> set (keys b))"
  by (induction b rule: is_mapping.induct) (simp_all add: hasOwnProperty_def)

text \<open>Values that the specification's equality equates are equal for \<open>isEqual\<close>.\<close>

lemma struct_eq_isEqual: "wf_val a \<Longrightarrow> wf_val b \<Longrightarrow> struct_eq a b \<Longrightarrow> isEqual a b"
proof (induction a b rule: isEqual.induct)
  case (1 a b)
  show ?case
  proof (cases "strict_eq a b")
    case True
    then show ?thesis by (simp add: isEqual.simps)
  next
    case ne: False
    have m: "is_mapping a" "is_mapping b"
      and ks: "set (keys a) = set (keys b)"
      and ch: "\<forall>key \<in> set (keys a). struct_eq (lookup (own_props a) key) (lookup (own_props b) key)"
      using "1.prems"(3) by (simp_all add: struct_eq_objects[OF ne])
    have ob: "is_object a" "is_object b"
      using m by (simp_all add: is_mapping_object)
    have len: "length (keys a) = length (keys b)"
      using ks wf_val_keys[OF "1.prems"(1)] wf_val_keys[OF "1.prems"(2)] by (metis distinct_card)
    have "hasOwnProperty b key \<and> isEqual (lookup (own_props a) key) (get_prop b key)"
      if k: "key \<in> set (keys a)" for key
    proof -
      have kb: "key \<in> set (keys b)"
        using k ks by simp
      then have h: "hasOwnProperty b key"
        by (simp add: hasOwnProperty_def)
      have "isEqual (get_prop a key) (get_prop b key)"
        using "1.IH"[of "keys a" "keys b" key] ne object_facts[OF ob(1)] object_facts[OF ob(2)]
          len k h ch wf_val_child[OF "1.prems"(1), of key] wf_val_child[OF "1.prems"(2), of key]
        by (simp add: get_prop_own kb)
      then show ?thesis
        using h by (simp add: get_prop_own k)
    qed
    then show ?thesis
      using len by (simp add: isEqual_objects[OF ne ob])
  qed
qed

text \<open>On plain data the converse holds too.\<close>

lemma isEqual_struct_eq_plain:
  "wf_val a \<Longrightarrow> wf_val b \<Longrightarrow> plain_data a \<Longrightarrow> plain_data b \<Longrightarrow> isEqual a b \<Longrightarrow> struct_eq a b"
proof (induction a b rule: isEqual.induct)
  case (1 a b)
  show ?case
  proof (cases "strict_eq a b")
    case True
    then show ?thesis by (simp add: struct_eq.simps)
  next
    case ne: False
    have ob: "is_object a" "is_object b"
      using "1.prems"(5) ne isEqual_prim[of a b] by auto
    have m: "is_mapping a" "is_mapping b"
      using ob "1.prems"(3,4) by (simp_all add: plain_data_mapping)
    have len: "length (keys a) = length (keys b)"
      and ch: "\<forall>key \<in> set (keys a). hasOwnProperty b key
                 \<and> isEqual (lookup (own_props a) key) (get_prop b key)"
      using "1.prems"(5) by (simp_all add: isEqual_objects[OF ne ob])
    have sub: "key \<in> set (keys b)" if k: "key \<in> set (keys a)" for key
      using ch k mapping_hasOwnProperty[OF m(2) plain_data_key[OF "1.prems"(3) k]] by simp
    then have ks: "set (keys a) = set (keys b)"
      using keys_eq_iff[OF wf_val_keys[OF "1.prems"(1)] wf_val_keys[OF "1.prems"(2)]] len
      by auto
    have "struct_eq (lookup (own_props a) key) (lookup (own_props b) key)"
      if k: "key \<in> set (keys a)" for key
    proof -
      have kb: "key \<in> set (keys b)"
        using k by (rule sub)
      have h: "hasOwnProperty b key"
        using ch k by simp
      have ie: "isEqual (get_prop a key) (get_prop b key)"
        using bspec[OF ch k] by (simp add: get_prop_own k)
      have "struct_eq (get_prop a key) (get_prop b key)"
        using "1.IH"[of "keys a" "keys b" key] ne object_facts[OF ob(1)] object_facts[OF ob(2)]
          len k h ie wf_val_child[OF "1.prems"(1), of key] wf_val_child[OF "1.prems"(2), of key]
          plain_data_child[OF "1.prems"(3), of key] plain_data_child[OF "1.prems"(4), of key]
        by (simp add: get_prop_own[OF k] get_prop_own[OF kb])
      then show ?thesis
        by (simp add: get_prop_own k kb)
    qed
    then show ?thesis
      using m ks by (simp add: struct_eq_objects[OF ne])
  qed
qed

lemma isEqual_struct_eq:
  "wf_val a \<Longrightarrow> wf_val b \<Longrightarrow> plain_data a \<Longrightarrow> plain_data b \<Longrightarrow> isEqual a b = struct_eq a b"
  using struct_eq_isEqual isEqual_struct_eq_plain by blast

lemma spread_map_of: "map_of (spread a b) = map_of a ++ map_of (rev b)"
proof (induction b arbitrary: a)
  case Nil
  then show ?case by (simp add: spread_def)
next
  case (Cons p b)
  obtain k v where p: "p = (k, v)" by (cases p)
  have "map_of (spread a (p # b)) = map_of (spread (AList.update k v a) b)"
    by (simp add: spread_def p)
  also have "\<dots> = map_of (AList.update k v a) ++ map_of (rev b)"
    by (rule Cons.IH)
  also have "\<dots> = map_of a ++ map_of (rev (p # b))"
    by (simp add: update_conv' p fun_eq_iff map_add_def split: option.splits)
  finally show ?case .
qed

lemma map_of_rev_distinct: "distinct (map fst b) \<Longrightarrow> map_of (rev b) = map_of b"
  by (subst map_of_inject_set) (simp_all add: rev_map[symmetric])

lemma state_notifyListeners: "state (notifyListeners sm) = state sm"
  by (simp add: notifyListeners_def Let_def split: prod.splits)

lemma notified_append: "notified sid l (xs @ ys) = notified sid l xs @ notified sid l ys"
  by (induction sid l xs rule: notified.induct) auto

lemma notified_map_other: "sid' \<noteq> sid \<Longrightarrow> notified sid l (map (\<lambda>x. SelectorCall sid' x v) ls) = []"
  by (induction ls) auto

lemma notified_map_absent: "l \<notin> set ls \<Longrightarrow> notified sid l (map (\<lambda>x. SelectorCall sid' x v) ls) = []"
  by (induction ls) auto

lemma notified_map_same:
  "distinct ls \<Longrightarrow> l \<in> set ls \<Longrightarrow> notified sid l (map (\<lambda>x. SelectorCall sid x v) ls) = [v]"
  by (induction ls) (auto simp: notified_map_absent)

lemma notified_map_global: "notified sid l (map (\<lambda>x. ListenerCall x st) ls) = []"
  by (induction ls) auto

lemma notify_selectors_keys: "map fst (fst (notify_selectors st sels)) = map fst sels"
  by (induction st sels rule: notify_selectors.induct) (auto simp: Let_def split: prod.splits)

lemma notify_selectors_listeners:
  "map (\<lambda>p. sel_listeners (snd p)) (fst (notify_selectors st sels)) = map (\<lambda>p. sel_listeners (snd p)) sels"
  by (induction st sels rule: notify_selectors.induct) (auto simp: Let_def split: prod.splits)

lemma notify_selectors_absent:
  "sid \<notin> set (map fst sels) \<Longrightarrow> notified sid l (snd (notify_selectors st sels)) = []"
  by (induction st sels rule: notify_selectors.induct)
     (auto simp: Let_def notified_append notified_map_other split: prod.splits)

lemma notify_selectors_entry:
  "distinct (map fst sels) \<Longrightarrow> map_of sels sid = Some e \<Longrightarrow>
   map_of (fst (notify_selectors st sels)) sid = Some (recomputed e st)"
proof (induction st sels rule: notify_selectors.induct)
  case (1 st)
  then show ?case by simp
next
  case (2 st sid' e' rest)
  then show ?case
    by (auto simp: Let_def recomputed_def split: prod.splits if_splits)
qed

lemma notify_selectors_calls:
  "distinct (map fst sels) \<Longrightarrow> map_of sels sid = Some e \<Longrightarrow>
   distinct (sel_listeners e) \<Longrightarrow> l \<in> set (sel_listeners e) \<Longrightarrow>
   notified sid l (snd (notify_selectors st sels)) =
     (if isEqual (sel_value e) (sel_fn e st) then [] else [sel_fn e st])"
proof (induction st sels rule: notify_selectors.induct)
  case (1 st)
  then show ?case by simp
next
  case (2 st sid' e' rest)
  show ?case
  proof (cases "sid' = sid")
    case True
    then have e: "e' = e" and absent: "sid \<notin> set (map fst rest)"
      using 2 by auto
    show ?thesis
      using True e 2(4,5) notify_selectors_absent[OF absent, of l st]
      by (auto simp: Let_def notified_append notified_map_same split: prod.splits)
  next
    case False
    then have "notified sid l (snd (notify_selectors st rest)) =
        (if isEqual (sel_value e) (sel_fn e st) then [] else [sel_fn e st])"
      using 2 by auto
    then show ?thesis
      using False
      by (auto simp: Let_def notified_append notified_map_other split: prod.splits)
  qed
qed


lemma this_state_setState:
  "this_state (setState sm u) =
     VObj (heap sm) Plain (spread (state sm) (case u of Updater f \<Rightarrow> f (getState sm) | Partial p \<Rightarrow> p))"
  by (simp add: setState_def notifyListeners_def this_state_def Let_def split: prod.splits)

lemma notifyListeners_calls:
  "calls (notifyListeners sm) =
     calls sm @ map (\<lambda>listener. ListenerCall listener (getState sm)) (listeners sm)
       @ snd (notify_selectors (this_state sm) (selectors sm))"
  by (simp add: notifyListeners_def Let_def split_beta)

lemma notifyListeners_selectors:
  "selectors (notifyListeners sm) = fst (notify_selectors (this_state sm) (selectors sm))"
  by (simp add: notifyListeners_def Let_def split_beta)

lemma this_state_notifyListeners: "this_state (notifyListeners sm) = this_state sm"
  by (simp add: notifyListeners_def this_state_def Let_def split_beta)

lemma setState_step:
  assumes wf: "wf_selectors sm"
    and e: "map_of (selectors sm) sid = Some e"
    and l: "l \<in> set (sel_listeners e)"
  shows "notified sid l (calls (setState sm u)) =
           notified sid l (calls sm) @
             (if isEqual (sel_value e) (sel_fn e (this_state (setState sm u))) then []
              else [sel_fn e (this_state (setState sm u))])"
    and "map_of (selectors (setState sm u)) sid = Some (recomputed e (this_state (setState sm u)))"
    and "wf_selectors (setState sm u)"
proof -
  define sm1 where "sm1 = sm\<lparr>state := spread (state sm) (case u of Updater f \<Rightarrow> f (getState sm) | Partial p \<Rightarrow> p),
      stateRef := heap sm, heap := Suc (heap sm)\<rparr>"
  have s: "setState sm u = notifyListeners sm1"
    by (simp add: setState_def sm1_def Let_def)
  have ts: "this_state (setState sm u) = this_state sm1"
    by (simp add: s this_state_notifyListeners)
  have c1: "calls sm1 = calls sm" and sel1: "selectors sm1 = selectors sm"
    by (simp_all add: sm1_def)
  have d: "distinct (map fst (selectors sm1))" and e1: "map_of (selectors sm1) sid = Some e"
    using wf e by (simp_all add: sel1 wf_selectors_def)
  have dl: "distinct (sel_listeners e)"
    using wf e by (auto simp: wf_selectors_def dest: map_of_SomeD)
  show "notified sid l (calls (setState sm u)) =
           notified sid l (calls sm) @
             (if isEqual (sel_value e) (sel_fn e (this_state (setState sm u))) then []
              else [sel_fn e (this_state (setState sm u))])"
    using notify_selectors_calls[OF d e1 dl l, of "this_state sm1"]
    by (simp add: ts s notifyListeners_calls this_state_notifyListeners notified_append notified_map_global c1)
  show "map_of (selectors (setState sm u)) sid = Some (recomputed e (this_state (setState sm u)))"
    using notify_selectors_entry[OF d e1, of "this_state sm1"]
    by (simp add: ts s notifyListeners_selectors this_state_notifyListeners)
  have "\<forall>ls \<in> set (map (\<lambda>p. sel_listeners (snd p)) (selectors sm1)). distinct ls"
    using wf by (simp add: wf_selectors_def sel1)
  then have "\<forall>ls \<in> set (map (\<lambda>p. sel_listeners (snd p)) (fst (notify_selectors (this_state sm1) (selectors sm1)))). distinct ls"
    by (simp only: notify_selectors_listeners)
  then show "wf_selectors (setState sm u)"
    using d notify_selectors_keys[of "this_state sm1" "selectors sm1"]
    by (simp add: s notifyListeners_selectors wf_selectors_def)
qed

lemma deliveries_none: "\<forall>v \<in> set vs. eq cached v \<Longrightarrow> deliveries eq cached vs = []"
  by (induction vs) auto

lemma selector_notifications:
  assumes "wf_selectors sm"
    and "map_of (selectors sm) sid = Some e"
    and "l \<in> set (sel_listeners e)"
    and "wf_val (sel_value e) \<and> plain_data (sel_value e)"
    and "\<forall>v \<in> set (map (sel_fn e) (states_after sm us)). wf_val v \<and> plain_data v"
  shows "notified sid l (calls (setStates sm us)) =
           notified sid l (calls sm) @
             deliveries struct_eq (sel_value e) (map (sel_fn e) (states_after sm us))"
  using assms
proof (induction us arbitrary: sm e)
  case Nil
  then show ?case by simp
next
  case (Cons u us)
  define st1 where "st1 = this_state (setState sm u)"
  define e1 where "e1 = recomputed e st1"
  have wv: "wf_val (sel_fn e st1) \<and> plain_data (sel_fn e st1)"
    using Cons.prems(5) by (simp add: st1_def)
  have eq: "isEqual (sel_value e) (sel_fn e st1) = struct_eq (sel_value e) (sel_fn e st1)"
    using Cons.prems(4) wv by (simp add: isEqual_struct_eq)
  have fn: "sel_fn e1 = sel_fn e" and ls: "sel_listeners e1 = sel_listeners e"
    by (simp_all add: e1_def recomputed_def)
  have step: "notified sid l (calls (setState sm u)) =
      notified sid l (calls sm) @ (if struct_eq (sel_value e) (sel_fn e st1) then [] else [sel_fn e st1])"
    using setState_step(1)[OF Cons.prems(1-3), of u] eq by (simp add: st1_def)
  have ent: "map_of (selectors (setState sm u)) sid = Some e1"
    using setState_step(2)[OF Cons.prems(1-3), of u] by (simp add: e1_def st1_def)
  have wf1: "wf_selectors (setState sm u)"
    using setState_step(3)[OF Cons.prems(1-3)] .
  have wv1: "wf_val (sel_value e1) \<and> plain_data (sel_value e1)"
    using Cons.prems(4) wv by (simp add: e1_def recomputed_def)
  have rest: "\<forall>v \<in> set (map (sel_fn e1) (states_after (setState sm u) us)). wf_val v \<and> plain_data v"
    using Cons.prems(5) by (simp add: fn)
  have "notified sid l (calls (setStates (setState sm u) us)) =
      notified sid l (calls (setState sm u)) @
        deliveries struct_eq (sel_value e1) (map (sel_fn e1) (states_after (setState sm u) us))"
    using Cons.IH[OF wf1 ent _ wv1 rest] Cons.prems(3) by (simp add: ls)
  then show ?case
    using step eq by (simp add: fn e1_def recomputed_def st1_def)
qed

lemma equal_steps_not_notified:
  assumes "wf_selectors sm"
    and "map_of (selectors sm) sid = Some e"
    and "l \<in> set (sel_listeners e)"
    and "\<forall>v \<in> set (map (sel_fn e) (states_after sm us)). isEqual (sel_value e) v"
  shows "notified sid l (calls (setStates sm us)) = notified sid l (calls sm)"
  using assms
proof (induction us arbitrary: sm)
  case Nil
  then show ?case by simp
next
  case (Cons u us)
  define st1 where "st1 = this_state (setState sm u)"
  have eq: "isEqual (sel_value e) (sel_fn e st1)"
    using Cons.prems(4) by (simp add: st1_def)
  have step: "notified sid l (calls (setState sm u)) = notified sid l (calls sm)"
    using setState_step(1)[OF Cons.prems(1-3), of u] eq by (simp add: st1_def)
  have ent: "map_of (selectors (setState sm u)) sid = Some e"
    using setState_step(2)[OF Cons.prems(1-3), of u] eq by (simp add: recomputed_def st1_def)
  have wf1: "wf_selectors (setState sm u)"
    using setState_step(3)[OF Cons.prems(1-3)] .
  have rest: "\<forall>v \<in> set (map (sel_fn e) (states_after (setState sm u) us)). isEqual (sel_value e) v"
    using Cons.prems(4) by simp
  show ?case
    using Cons.IH[OF wf1 ent Cons.prems(3) rest] step by simp
qed

lemma update_all:
  "P v \<Longrightarrow> \<forall>p \<in> set al. P (snd p) \<Longrightarrow> \<forall>p \<in> set (AList.update k v al). P (snd p)"
  by (induction al) auto

lemma select_registers:
  assumes "wf_selectors sm"
  shows "wf_selectors (select sm sid f l)"
    and "\<exists>e. map_of (selectors (select sm sid f l)) sid = Some e \<and> l \<in> set (sel_listeners e)"
proof -
  define base where "base =
    (case map_of (selectors sm) sid of
       None \<Rightarrow> \<lparr>sel_fn = f, sel_value = f (this_state sm), sel_listeners = []\<rparr>
     | Some e \<Rightarrow> e)"
  define e' where "e' = base\<lparr>sel_listeners := set_add l (sel_listeners base)\<rparr>"
  have sel: "selectors (select sm sid f l) = AList.update sid e' (selectors sm)"
    by (simp add: select_def Let_def base_def e'_def)
  have "distinct (sel_listeners base)"
    using assms
    by (auto simp: base_def wf_selectors_def split: option.splits dest: map_of_SomeD)
  then have "distinct (sel_listeners e')"
    by (simp add: e'_def set_add_def)
  then have "\<forall>p \<in> set (AList.update sid e' (selectors sm)). distinct (sel_listeners (snd p))"
    using assms
    by (intro update_all[where P = "\<lambda>e. distinct (sel_listeners e)"])
       (simp_all add: wf_selectors_def)
  then show "wf_selectors (select sm sid f l)"
    using assms by (simp add: sel wf_selectors_def distinct_update)
  show "\<exists>e. map_of (selectors (select sm sid f l)) sid = Some e \<and> l \<in> set (sel_listeners e)"
    by (simp add: sel update_conv' e'_def set_add_def)
qed

text \<open>
  Claim C8. \<open>setState\<close> merges shallowly: after \<open>setState(p)\<close>, \<open>getState()\<close> has, at every
  key of the partial update \<open>p\<close>, the property \<open>p\<close> gives it, and at every other key the
  property the state had before (present with the same value, or absent as before).
\<close>

theorem setState_shallow_merge:
  assumes "distinct (map fst p)"
  shows "map_of (getState (setState sm (Partial p))) key =
           (if key \<in> set (map fst p) then map_of p key else map_of (getState sm) key)"
proof -
  have "map_of (getState (setState sm (Partial p))) = map_of (state sm) ++ map_of p"
    using assms
    by (simp add: getState_def setState_def state_notifyListeners spread_map_of map_of_rev_distinct)
  then show ?thesis
    by (force simp: getState_def map_add_def map_of_eq_None_iff split: option.splits dest: map_of_SomeD)
qed

theorem setState_shallow_merge_witness:
  "distinct (map fst [(''isScanning'', VBool True)])
   \<and> map_of (getState (setState (new_StateManager 1 initialState)
               (Partial [(''isScanning'', VBool True)]))) ''isScanning'' = Some (VBool True)
   \<and> map_of (getState (setState (new_StateManager 1 initialState)
               (Partial [(''isScanning'', VBool True)]))) ''sessionId'' = Some VNull"
proof -
  have d: "distinct (map fst [(''isScanning'', VBool True)])"
    by simp
  have old: "map_of (getState (new_StateManager 1 initialState)) ''sessionId'' = Some VNull"
    by (simp add: getState_def new_StateManager_def spread_def initialState_def)
  show ?thesis
    using d old
      setState_shallow_merge[OF d, of "new_StateManager 1 initialState" "''isScanning''"]
      setState_shallow_merge[OF d, of "new_StateManager 1 initialState" "''sessionId''"]
    by simp
qed

text \<open>
  Claim C9 as stated fails: a selector's listener is not called although the recomputed
  value differs from the cached one under the structural equality \<open>struct_eq\<close> of the
  specification. \<open>isEqual\<close> compares any two objects by their enumerable properties, so
  two different \<open>Error\<close> objects, which have none, are equal for it whatever their
  messages; and its \<open>hasOwnProperty\<close> test also finds the \<open>length\<close> of an array, so the
  plain object \<open>{length: 1}\<close> followed by the array \<open>['q']\<close> is no change for it. In
  both runs the selector \<open>(state) => state.v\<close> is registered on a state whose \<open>v\<close> is
  the first value, and one \<open>setState\<close> then makes \<open>v\<close> the second.
\<close>

theorem selector_not_notified_on_structural_change:
  "sel_field ''v'' (this_state (new_StateManager 1 [(''v'', VObj 10 (Err ''a'') [])]))
     = VObj 10 (Err ''a'') []
   \<and> map (sel_field ''v'')
       (states_after
          (select (new_StateManager 1 [(''v'', VObj 10 (Err ''a'') [])]) 7 (sel_field ''v'') 3)
          [Partial [(''v'', VObj 11 (Err ''b'') [])]]) = [VObj 11 (Err ''b'') []]
   \<and> \<not> struct_eq (VObj 10 (Err ''a'') []) (VObj 11 (Err ''b'') [])
   \<and> notified 7 3
       (calls (setStates
          (select (new_StateManager 1 [(''v'', VObj 10 (Err ''a'') [])]) 7 (sel_field ''v'') 3)
          [Partial [(''v'', VObj 11 (Err ''b'') [])]])) = []
   \<and> sel_field ''v'' (this_state (new_StateManager 1 [(''v'', VObj 10 Plain [(''length'', VNum 1)])]))
       = VObj 10 Plain [(''length'', VNum 1)]
   \<and> map (sel_field ''v'')
       (states_after
          (select (new_StateManager 1 [(''v'', VObj 10 Plain [(''length'', VNum 1)])]) 7
             (sel_field ''v'') 3)
          [Partial [(''v'', VObj 11 Arr [(''0'', VStr ''q'')])]])
       = [VObj 11 Arr [(''0'', VStr ''q'')]]
   \<and> \<not> struct_eq (VObj 10 Plain [(''length'', VNum 1)]) (VObj 11 Arr [(''0'', VStr ''q'')])
   \<and> notified 7 3
       (calls (setStates
          (select (new_StateManager 1 [(''v'', VObj 10 Plain [(''length'', VNum 1)])]) 7
             (sel_field ''v'') 3)
          [Partial [(''v'', VObj 11 Arr [(''0'', VStr ''q'')])]])) = []"
  by code_simp

text \<open>
  Claim C9, as amended. Take a selector \<open>sid\<close> registered with listener \<open>l\<close> (entry \<open>e\<close> of
  the selector map) and any finite sequence \<open>us\<close> of \<open>setState\<close> calls. When the
  recomputed value is equal to the cached value at each step, under the structural
  equality \<open>struct_eq\<close> of the specification, the listener is not called at all. And when
  the values are plain data (built from primitives, plain objects and arrays, with no
  property named \<open>length\<close> in an object), the listener is called exactly at the steps
  where the recomputed value differs from the cached one under \<open>struct_eq\<close>: the calls
  it receives are the \<open>deliveries\<close>. The values compared are JavaScript values, whose
  objects have distinct keys (\<open>wf_val\<close>); the selector map and the listener sets have no
  duplicates (\<open>wf_selectors\<close>), as \<open>select\<close> keeps them.
\<close>

theorem selector_listener_notified_iff_changed:
  assumes "wf_selectors sm"
    and "map_of (selectors sm) sid = Some e"
    and "l \<in> set (sel_listeners e)"
    and "wf_val (sel_value e)"
    and "\<forall>v \<in> set (map (sel_fn e) (states_after sm us)). wf_val v"
  shows "((\<forall>v \<in> set (map (sel_fn e) (states_after sm us)). struct_eq (sel_value e) v)
            \<longrightarrow> notified sid l (calls (setStates sm us)) = notified sid l (calls sm))
         \<and> (plain_data (sel_value e)
              \<and> (\<forall>v \<in> set (map (sel_fn e) (states_after sm us)). plain_data v)
            \<longrightarrow> notified sid l (calls (setStates sm us)) =
                  notified sid l (calls sm) @
                    deliveries struct_eq (sel_value e) (map (sel_fn e) (states_after sm us)))"
proof (intro conjI impI)
  assume "\<forall>v \<in> set (map (sel_fn e) (states_after sm us)). struct_eq (sel_value e) v"
  then have "\<forall>v \<in> set (map (sel_fn e) (states_after sm us)). isEqual (sel_value e) v"
    using assms(4,5) struct_eq_isEqual by blast
  then show "notified sid l (calls (setStates sm us)) = notified sid l (calls sm)"
    using assms(1-3) by (intro equal_steps_not_notified)
next
  assume "plain_data (sel_value e)
      \<and> (\<forall>v \<in> set (map (sel_fn e) (states_after sm us)). plain_data v)"
  then have "wf_val (sel_value e) \<and> plain_data (sel_value e)"
    and "\<forall>v \<in> set (map (sel_fn e) (states_after sm us)). wf_val v \<and> plain_data v"
    using assms(4,5) by simp_all
  then show "notified sid l (calls (setStates sm us)) =
      notified sid l (calls sm) @
        deliveries struct_eq (sel_value e) (map (sel_fn e) (states_after sm us))"
    using assms(1-3) by (intro selector_notifications)
qed

theorem selector_listener_notified_iff_changed_witness:
  "notified 7 3
     (calls (setStates (select (new_StateManager 1 initialState) 7 (sel_field ''devices'') 3)
        [Partial [(''isScanning'', VBool True)],
         Partial [(''devices'', VObj 20 Arr [(''0'', VObj 21 Plain [(''id'', VStr ''tv'')])])],
         Partial [(''devices'', VObj 22 Arr [(''0'', VObj 23 Plain [(''id'', VStr ''tv'')])])]]))
     = [VObj 20 Arr [(''0'', VObj 21 Plain [(''id'', VStr ''tv'')])]]
   \<and> notified 7 3
     (calls (setStates (select (new_StateManager 1 initialState) 7 (sel_field ''devices'') 3)
        [Partial [(''isScanning'', VBool True)],
         Partial [(''devices'', VObj 24 Arr [])]])) = []"
proof -
  define sm where "sm = select (new_StateManager 1 initialState) 7 (sel_field ''devices'') 3"
  define e where "e = \<lparr>sel_fn = sel_field ''devices'', sel_value = VObj 0 Arr [], sel_listeners = [3::nat]\<rparr>"
  define us where "us = [Partial [(''isScanning'', VBool True)],
    Partial [(''devices'', VObj 20 Arr [(''0'', VObj 21 Plain [(''id'', VStr ''tv'')])])],
    Partial [(''devices'', VObj 22 Arr [(''0'', VObj 23 Plain [(''id'', VStr ''tv'')])])]]"
  define us' where "us' = [Partial [(''isScanning'', VBool True)], Partial [(''devices'', VObj 24 Arr [])]]"
  have wf: "wf_selectors sm"
    unfolding sm_def by code_simp
  have ent: "map_of (selectors sm) 7 = Some e"
    by (simp add: sm_def e_def sel_field_def select_def new_StateManager_def set_add_def
          this_state_def get_prop_def lookup_def spread_def initialState_def)
  have l: "3 \<in> set (sel_listeners e)" and wv: "wf_val (sel_value e)"
    and pd: "plain_data (sel_value e)"
    by (simp_all add: e_def)
  have vs: "\<forall>v \<in> set (map (sel_fn e) (states_after sm us)). wf_val v"
    unfolding sm_def e_def us_def selectorState.simps by code_simp
  have ps: "\<forall>v \<in> set (map (sel_fn e) (states_after sm us)). plain_data v"
    unfolding sm_def e_def us_def selectorState.simps by code_simp
  have vs': "\<forall>v \<in> set (map (sel_fn e) (states_after sm us')). wf_val v"
    unfolding sm_def e_def us'_def selectorState.simps by code_simp
  have same: "\<forall>v \<in> set (map (sel_fn e) (states_after sm us')). struct_eq (sel_value e) v"
    unfolding sm_def e_def us'_def selectorState.simps by code_simp
  have c0: "notified 7 3 (calls sm) = []"
    unfolding sm_def by code_simp
  have d: "deliveries struct_eq (sel_value e) (map (sel_fn e) (states_after sm us))
      = [VObj 20 Arr [(''0'', VObj 21 Plain [(''id'', VStr ''tv'')])]]"
    unfolding sm_def e_def us_def selectorState.simps by code_simp
  have a: "notified 7 3 (calls (setStates sm us))
      = [VObj 20 Arr [(''0'', VObj 21 Plain [(''id'', VStr ''tv'')])]]"
    using selector_listener_notified_iff_changed[OF wf ent l wv vs, THEN conjunct2, THEN mp,
        OF conjI, OF pd ps]
    by (simp only: c0 d append_Nil)
  have b: "notified 7 3 (calls (setStates sm us')) = []"
    using selector_listener_notified_iff_changed[OF wf ent l wv vs', THEN conjunct1, THEN mp, OF same]
    by (simp only: c0)
  show ?thesis
    using a b by (simp only: sm_def us_def us'_def)
qed

section \<open>Properties of the bridge\<close>

lemma in_update: "e \<in> set (AList.update k v al) \<Longrightarrow> e = (k, v) \<or> e \<in> set al"
  by (induction al) (auto split: if_splits)

lemma in_delete: "e \<in> set (AList.delete k al) \<Longrightarrow> e \<in> set al \<and> fst e \<noteq> k"
  by (auto simp: AList.delete_eq)

lemma map_of_settle:
  "map_of (promises (settle b p out)) q =
     (if q = p \<and> map_of (promises b) p = Some Pending then Some out else map_of (promises b) q)"
  by (auto simp: settle_def update_conv' split: option.splits promise_state.splits)

lemma settle_fields [simp]:
  "pendingRequests (settle b p out) = pendingRequests b"
  "timers (settle b p out) = timers b"
  "nextId (settle b p out) = nextId b"
  "window_listeners (settle b p out) = window_listeners b"
  "posted (settle b p out) = posted b"
  "delivered (settle b p out) = delivered b"
  "map fst (promises (settle b p out)) = map fst (promises b)"
  by (auto simp: settle_def update_keys map_of_eq_None_iff split: option.splits promise_state.splits
      dest!: map_of_SomeD) (metis fst_conv image_eqI)+


lemma settle_keeps_settled:
  "map_of (promises b) p = Some out \<Longrightarrow> out \<noteq> Pending \<Longrightarrow>
   map_of (promises (settle b q out')) p = Some out"
  by (auto simp: map_of_settle)

lemma ids_fresh_settle: "ids_fresh (settle b p out) = ids_fresh b"
  by (simp add: ids_fresh_def)

lemma in_flight_settle_other:
  "in_flight b rid p t c \<Longrightarrow> q \<noteq> p \<Longrightarrow> in_flight (settle b q out) rid p t c"
  by (simp add: in_flight_def map_of_settle)

text \<open>handleMessage\<close>

lemma handleMessage_ignored:
  "\<not> (validateMessage m \<and> (\<exists>rid. get_prop m ''requestId'' = VStr rid \<and> rid \<noteq> []
        \<and> rid \<in> set (map fst (pendingRequests b)))) \<Longrightarrow> handleMessage b m = b"
  by (auto simp: handleMessage_def split: jsval.splits option.splits)

lemma handleMessage_effect:
  assumes "validateMessage m" and "get_prop m ''requestId'' = VStr rid" and "rid \<noteq> []"
    and "map_of (pendingRequests b) rid = Some pr"
  shows "timers (handleMessage b m) = AList.delete (pr_timer pr) (timers b)"
    and "pendingRequests (handleMessage b m) = AList.delete rid (pendingRequests b)"
    and "nextId b \<le> nextId (handleMessage b m)"
    and "map_of (promises (handleMessage b m)) q =
           (if q = pr_promise pr \<and> map_of (promises b) q = Some Pending
            then Some (Resolved (if truthy (get_prop m ''payload'') then get_prop m ''payload''
                                 else VObj (nextId b) Plain []))
            else map_of (promises b) q)"
    and "map fst (promises (handleMessage b m)) = map fst (promises b)"
    and "window_listeners (handleMessage b m) = window_listeners b"
    and "delivered (handleMessage b m) = delivered b"
    and "posted (handleMessage b m) = posted b"
proof -
  have "rid \<in> set (map fst (pendingRequests b))"
    using assms(4) by (force dest: map_of_SomeD)
  then have hm: "handleMessage b m =
      (if truthy (get_prop m ''payload'')
       then settle (b\<lparr>timers := AList.delete (pr_timer pr) (timers b),
                      pendingRequests := AList.delete rid (pendingRequests b)\<rparr>)
              (pr_promise pr) (Resolved (get_prop m ''payload''))
       else settle (b\<lparr>timers := AList.delete (pr_timer pr) (timers b),
                      pendingRequests := AList.delete rid (pendingRequests b),
                      nextId := Suc (nextId b)\<rparr>)
              (pr_promise pr) (Resolved (VObj (nextId b) Plain [])))"
    using assms by (simp add: handleMessage_def Let_def)
  show "timers (handleMessage b m) = AList.delete (pr_timer pr) (timers b)"
    and "pendingRequests (handleMessage b m) = AList.delete rid (pendingRequests b)"
    and "nextId b \<le> nextId (handleMessage b m)"
    and "map fst (promises (handleMessage b m)) = map fst (promises b)"
    and "window_listeners (handleMessage b m) = window_listeners b"
    and "delivered (handleMessage b m) = delivered b"
    and "posted (handleMessage b m) = posted b"
    by (simp_all add: hm)
  show "map_of (promises (handleMessage b m)) q =
           (if q = pr_promise pr \<and> map_of (promises b) q = Some Pending
            then Some (Resolved (if truthy (get_prop m ''payload'') then get_prop m ''payload''
                                 else VObj (nextId b) Plain []))
            else map_of (promises b) q)"
    by (auto simp: hm map_of_settle)
qed

lemma handleMessage_cases:
  "handleMessage b m = b \<or>
   (\<exists>rid pr. validateMessage m \<and> get_prop m ''requestId'' = VStr rid \<and> rid \<noteq> []
      \<and> map_of (pendingRequests b) rid = Some pr)"
proof (cases "validateMessage m \<and> (\<exists>rid. get_prop m ''requestId'' = VStr rid \<and> rid \<noteq> []
        \<and> rid \<in> set (map fst (pendingRequests b)))")
  case True
  then obtain rid where r: "validateMessage m" "get_prop m ''requestId'' = VStr rid" "rid \<noteq> []"
    "rid \<in> set (map fst (pendingRequests b))" by blast
  then obtain pr where "map_of (pendingRequests b) rid = Some pr"
    by (metis map_of_eq_None_iff not_None_eq set_map)
  with r show ?thesis by blast
next
  case False
  then show ?thesis by (intro disjI1 handleMessage_ignored)
qed

lemma handleMessage_fresh:
  assumes "ids_fresh b"
  shows "ids_fresh (handleMessage b m)"
proof -
  consider (ignored) "handleMessage b m = b"
    | (resolved) rid pr where "validateMessage m" "get_prop m ''requestId'' = VStr rid"
        "rid \<noteq> []" "map_of (pendingRequests b) rid = Some pr"
    using handleMessage_cases by blast
  then show ?thesis
  proof cases
    case ignored
    then show ?thesis using assms by simp
  next
    case resolved
    note eff = handleMessage_effect[OF resolved]
    have le: "nextId b \<le> nextId (handleMessage b m)" by (rule eff(3))
    show ?thesis
      unfolding ids_fresh_def eff(1,2,5)
      using assms le
      by (auto simp: ids_fresh_def dest!: in_delete)
  qed
qed


lemma handleMessage_settled:
  assumes "map_of (promises b) p = Some out" and "out \<noteq> Pending"
  shows "map_of (promises (handleMessage b m)) p = Some out"
proof -
  consider (ignored) "handleMessage b m = b"
    | (resolved) rid pr where "validateMessage m" "get_prop m ''requestId'' = VStr rid"
        "rid \<noteq> []" "map_of (pendingRequests b) rid = Some pr"
    using handleMessage_cases by blast
  then show ?thesis
  proof cases
    case ignored
    then show ?thesis using assms by simp
  next
    case resolved
    show ?thesis
      using assms by (simp add: handleMessage_effect(4)[OF resolved])
  qed
qed

lemma call_listener_fresh: "ids_fresh b \<Longrightarrow> ids_fresh (call_listener m b l)"
proof (cases l)
  case HandleMessage
  then show "ids_fresh b \<Longrightarrow> ids_fresh (call_listener m b l)"
    by (simp add: handleMessage_fresh)
next
  case (UserListener n)
  then show "ids_fresh b \<Longrightarrow> ids_fresh (call_listener m b l)"
    by (simp add: ids_fresh_def)
qed

lemma call_listener_settled:
  "map_of (promises b) p = Some out \<Longrightarrow> out \<noteq> Pending \<Longrightarrow>
   map_of (promises (call_listener m b l)) p = Some out"
  by (cases l) (simp_all add: handleMessage_settled)

lemma dispatch_fresh: "ids_fresh b \<Longrightarrow> ids_fresh (dispatch_message b m)"
proof -
  have "ids_fresh b \<Longrightarrow> ids_fresh (foldl (call_listener m) b ls)" for ls
    by (induction ls arbitrary: b) (simp_all add: call_listener_fresh)
  then show "ids_fresh b \<Longrightarrow> ids_fresh (dispatch_message b m)"
    by (simp add: dispatch_message_def)
qed

lemma dispatch_settled:
  assumes "map_of (promises b) p = Some out" and "out \<noteq> Pending"
  shows "map_of (promises (dispatch_message b m)) p = Some out"
proof -
  have "map_of (promises b) p = Some out \<Longrightarrow>
        map_of (promises (foldl (call_listener m) b ls)) p = Some out" for ls b
    using assms(2) by (induction ls arbitrary: b) (simp_all add: call_listener_settled)
  then show ?thesis
    using assms(1) by (simp add: dispatch_message_def)
qed

lemma timer_fires_fresh:
  assumes "ids_fresh b"
  shows "ids_fresh (timer_fires b t)"
proof (cases "map_of (timers b) t")
  case None
  then show ?thesis using assms by (simp add: timer_fires_def)
next
  case (Some c)
  define b2 where "b2 =
    (if \<not> no_requestId (m_requestId (t_message c))
     then b\<lparr>timers := AList.delete t (timers b),
            pendingRequests := AList.delete (the (m_requestId (t_message c))) (pendingRequests b)\<rparr>
     else b\<lparr>timers := AList.delete t (timers b)\<rparr>)"
  have "ids_fresh b2"
    using assms by (auto simp: b2_def ids_fresh_def dest!: in_delete)
  moreover have "timer_fires b t =
      settle b2 (t_promise c) (Rejected (RequestTimedOut (t_timeout c) (m_type (t_message c))))"
    using Some by (simp add: timer_fires_def Let_def b2_def)
  ultimately show ?thesis
    by (simp add: ids_fresh_settle)
qed

lemma timer_fires_settled:
  "map_of (promises b) p = Some out \<Longrightarrow> out \<noteq> Pending \<Longrightarrow>
   map_of (promises (timer_fires b t)) p = Some out"
  by (auto simp: timer_fires_def Let_def map_of_settle split: option.splits)

lemma send_fresh: "ids_fresh b \<Longrightarrow> ids_fresh (snd (sendMessageWithResponse b message t))"
  by (auto simp: sendMessageWithResponse_def Let_def sendMessage_def ids_fresh_def
      dest!: in_update)

lemma send_settled:
  assumes "ids_fresh b" and "map_of (promises b) p = Some out" and "out \<noteq> Pending"
  shows "map_of (promises (snd (sendMessageWithResponse b message t))) p = Some out"
proof -
  have "p < nextId b"
    using assms(1,2) by (force simp: ids_fresh_def dest: map_of_SomeD)
  then show ?thesis
    using assms(2)
    by (simp add: sendMessageWithResponse_def Let_def sendMessage_def update_conv')
qed

lemma dispose_loop_fresh:
  "ids_fresh acc \<Longrightarrow>
   ids_fresh (foldl (\<lambda>acc (rid, pr).
      settle (acc\<lparr>timers := AList.delete (pr_timer pr) (timers acc)\<rparr>)
        (pr_promise pr) (Rejected BridgeDisposed)) acc xs)"
proof (induction xs arbitrary: acc)
  case Nil
  then show ?case by simp
next
  case (Cons x xs)
  have "ids_fresh (settle (acc\<lparr>timers := AList.delete (pr_timer (snd x)) (timers acc)\<rparr>)
        (pr_promise (snd x)) (Rejected BridgeDisposed))"
    using Cons.prems by (auto simp: ids_fresh_settle ids_fresh_def dest!: in_delete)
  then show ?case
    using Cons.IH by (simp add: split_beta)
qed

lemma dispose_loop_settled:
  "map_of (promises acc) p = Some out \<Longrightarrow> out \<noteq> Pending \<Longrightarrow>
   map_of (promises (foldl (\<lambda>acc (rid, pr).
      settle (acc\<lparr>timers := AList.delete (pr_timer pr) (timers acc)\<rparr>)
        (pr_promise pr) (Rejected BridgeDisposed)) acc xs)) p = Some out"
proof (induction xs arbitrary: acc)
  case Nil
  then show ?case by simp
next
  case (Cons x xs)
  have "map_of (promises (settle (acc\<lparr>timers := AList.delete (pr_timer (snd x)) (timers acc)\<rparr>)
        (pr_promise (snd x)) (Rejected BridgeDisposed))) p = Some out"
    using Cons.prems by (auto simp: map_of_settle)
  then show ?case
    using Cons.IH Cons.prems(2) by (simp add: split_beta)
qed

lemma dispose_loop_pending:
  "pendingRequests (foldl (\<lambda>acc (rid, pr).
      settle (acc\<lparr>timers := AList.delete (pr_timer pr) (timers acc)\<rparr>)
        (pr_promise pr) (Rejected BridgeDisposed)) acc xs) = pendingRequests acc"
  by (induction xs arbitrary: acc) (simp_all add: split_beta)

lemma dispose_fresh: "ids_fresh b \<Longrightarrow> ids_fresh (dispose b)"
proof -
  assume f: "ids_fresh b"
  have "ids_fresh (window_removeEventListener b ''message'' HandleMessage)"
    using f by (simp add: window_removeEventListener_def ids_fresh_def)
  then have "ids_fresh (foldl (\<lambda>acc (rid, pr).
      settle (acc\<lparr>timers := AList.delete (pr_timer pr) (timers acc)\<rparr>)
        (pr_promise pr) (Rejected BridgeDisposed))
      (window_removeEventListener b ''message'' HandleMessage)
      (pendingRequests (window_removeEventListener b ''message'' HandleMessage)))"
    by (rule dispose_loop_fresh)
  then show ?thesis
    by (simp add: dispose_def Let_def ids_fresh_def)
qed

lemma dispose_settled:
  "map_of (promises b) p = Some out \<Longrightarrow> out \<noteq> Pending \<Longrightarrow>
   map_of (promises (dispose b)) p = Some out"
  by (simp add: dispose_def Let_def dispose_loop_settled window_removeEventListener_def)

lemma listeners_fresh: "ids_fresh (b\<lparr>window_listeners := x\<rparr>) = ids_fresh b"
  by (simp add: ids_fresh_def)

lemma step_fresh: "ids_fresh b \<Longrightarrow> ids_fresh (bridge_step b ev)"
  by (cases ev)
     (simp_all add: dispatch_fresh timer_fires_fresh send_fresh dispose_fresh
        addEventListener_def removeEventListener_def window_addEventListener_def
        window_removeEventListener_def listeners_fresh)

lemma step_settled:
  "ids_fresh b \<Longrightarrow> map_of (promises b) p = Some out \<Longrightarrow> out \<noteq> Pending \<Longrightarrow>
   map_of (promises (bridge_step b ev)) p = Some out"
  by (cases ev)
     (simp_all add: dispatch_settled timer_fires_settled send_settled dispose_settled
        addEventListener_def removeEventListener_def window_addEventListener_def
        window_removeEventListener_def)

lemma new_bridge_fresh: "ids_fresh (new_WebViewBridge origin_opt timeout_opt debug_opt)"
  by (simp add: new_WebViewBridge_def setupMessageListener_def window_addEventListener_def
      ids_fresh_def)

lemma run_fresh: "ids_fresh b \<Longrightarrow> ids_fresh (bridge_run b es)"
  unfolding bridge_run_def
  by (induction es arbitrary: b) (simp_all add: step_fresh)

lemma run_settled:
  "ids_fresh b \<Longrightarrow> map_of (promises b) p = Some out \<Longrightarrow> out \<noteq> Pending \<Longrightarrow>
   map_of (promises (bridge_run b es)) p = Some out"
  unfolding bridge_run_def
  by (induction es arbitrary: b) (simp_all add: step_fresh step_settled)


lemma send_in_flight:
  assumes fresh: "ids_fresh b"
    and send: "sendMessageWithResponse b message tmo = (Inr p, b1)"
    and rid: "m_requestId message = Some rid"
  shows "p = nextId b"
    and "rid \<noteq> []"
    and "in_flight b1 rid p (Suc (nextId b))
           \<lparr>t_message = message,
            t_timeout = (case tmo of None \<Rightarrow> timeout b | Some t \<Rightarrow> t), t_promise = p\<rparr>"
    and "ids_fresh b1"
proof -
  have nr: "\<not> no_requestId (m_requestId message)"
    using send by (auto simp: sendMessageWithResponse_def Let_def split: if_splits)
  then show "rid \<noteq> []"
    using rid by (simp add: no_requestId_def)
  show p: "p = nextId b"
    using send nr by (auto simp: sendMessageWithResponse_def Let_def)
  have b1: "b1 = snd (sendMessageWithResponse b message tmo)"
    using send by simp
  show "ids_fresh b1"
    unfolding b1 using fresh by (rule send_fresh)
  have old_p: "\<forall>e \<in> set (promises b). fst e \<noteq> nextId b"
    and old_t: "\<forall>e \<in> set (timers b). fst e \<noteq> Suc (nextId b) \<and> t_promise (snd e) \<noteq> nextId b"
    and old_r: "\<forall>e \<in> set (pendingRequests b).
        pr_timer (snd e) \<noteq> Suc (nextId b) \<and> pr_promise (snd e) \<noteq> nextId b"
    using fresh by (fastforce simp: ids_fresh_def)+
  show "in_flight b1 rid p (Suc (nextId b))
           \<lparr>t_message = message,
            t_timeout = (case tmo of None \<Rightarrow> timeout b | Some t \<Rightarrow> t), t_promise = p\<rparr>"
    unfolding b1 p
    using nr rid old_p old_t old_r
    by (auto simp: in_flight_def sendMessageWithResponse_def Let_def sendMessage_def update_conv'
        dest!: in_update)
qed

lemma in_flight_handleMessage:
  assumes inf: "in_flight b rid p t c"
    and q: "\<not> (validateMessage m \<and> get_prop m ''requestId'' = VStr rid)"
  shows "in_flight (handleMessage b m) rid p t c"
proof -
  consider (ignored) "handleMessage b m = b"
    | (resolved) rid' pr where "validateMessage m" "get_prop m ''requestId'' = VStr rid'"
        "rid' \<noteq> []" "map_of (pendingRequests b) rid' = Some pr"
    using handleMessage_cases by blast
  then show ?thesis
  proof cases
    case ignored
    then show ?thesis using inf by simp
  next
    case resolved
    note eff = handleMessage_effect[OF resolved]
    have "rid' \<noteq> rid"
      using q resolved(1,2) by auto
    moreover have "(rid', pr) \<in> set (pendingRequests b)"
      using resolved(4) by (rule map_of_SomeD)
    ultimately have ne: "pr_timer pr \<noteq> t" "pr_promise pr \<noteq> p"
      using inf by (auto simp: in_flight_def)
    show ?thesis
      unfolding in_flight_def eff(1,2) eff(4)
      using inf ne by (auto simp: in_flight_def delete_conv' dest!: in_delete)
  qed
qed

lemma in_flight_dispatch:
  assumes "in_flight b rid p t c"
    and q: "\<not> (validateMessage m \<and> get_prop m ''requestId'' = VStr rid)"
  shows "in_flight (dispatch_message b m) rid p t c"
proof -
  have step: "in_flight (call_listener m b l) rid p t c" if "in_flight b rid p t c" for b l
  proof (cases l)
    case HandleMessage
    then show ?thesis using that q by (simp add: in_flight_handleMessage)
  next
    case (UserListener n)
    then show ?thesis using that by (simp add: in_flight_def)
  qed
  have "in_flight b rid p t c \<Longrightarrow> in_flight (foldl (call_listener m) b ls) rid p t c" for ls b
    by (induction ls arbitrary: b) (simp_all add: step)
  then show ?thesis
    using assms(1) by (simp add: dispatch_message_def)
qed

lemma in_flight_timer_other:
  assumes inf: "in_flight b rid p t c" and ne: "t' \<noteq> t"
  shows "in_flight (timer_fires b t') rid p t c"
proof (cases "map_of (timers b) t'")
  case None
  then show ?thesis using inf by (simp add: timer_fires_def)
next
  case (Some c')
  then have "(t', c') \<in> set (timers b)"
    by (rule map_of_SomeD)
  then have np: "t_promise c' \<noteq> p"
    using inf ne by (auto simp: in_flight_def)
  show ?thesis
    using inf ne np Some
    by (auto simp: in_flight_def timer_fires_def Let_def map_of_settle delete_conv'
        dest!: in_delete)
qed

lemma in_flight_send:
  assumes fresh: "ids_fresh b" and inf: "in_flight b rid p t c"
  shows "in_flight (snd (sendMessageWithResponse b message tmo)) rid p t c"
proof -
  have "p < nextId b" "t < nextId b"
    using fresh inf by (force simp: ids_fresh_def in_flight_def dest: map_of_SomeD)+
  then show ?thesis
    using inf
    by (auto simp: in_flight_def sendMessageWithResponse_def Let_def sendMessage_def
        update_conv' dest!: in_update)
qed

lemma in_flight_quiet_step:
  assumes "ids_fresh b" and "in_flight b rid p t c" and "quiet rid t ev"
  shows "in_flight (bridge_step b ev) rid p t c"
proof (cases ev)
  case (MessageEvent m)
  then show ?thesis using assms by (simp add: in_flight_dispatch)
next
  case (TimerFires t')
  then show ?thesis using assms by (simp add: in_flight_timer_other)
next
  case (SendWithResponse message tmo)
  then show ?thesis using assms by (simp add: in_flight_send)
next
  case (AddListener ty l)
  then show ?thesis
    using assms by (simp add: addEventListener_def window_addEventListener_def in_flight_def)
next
  case (RemoveListener ty l)
  then show ?thesis
    using assms by (simp add: removeEventListener_def window_removeEventListener_def in_flight_def)
next
  case Dispose
  then show ?thesis using assms by simp
qed

lemma in_flight_quiet_run:
  assumes "ids_fresh b" and "in_flight b rid p t c" and "\<forall>ev \<in> set es. quiet rid t ev"
  shows "in_flight (bridge_run b es) rid p t c \<and> ids_fresh (bridge_run b es)"
  using assms unfolding bridge_run_def
  by (induction es arbitrary: b) (simp_all add: in_flight_quiet_step step_fresh)

lemma timer_fires_in_flight:
  assumes inf: "in_flight b rid p t c"
    and rid: "m_requestId (t_message c) = Some rid" "rid \<noteq> []"
  shows "map_of (promises (timer_fires b t)) p =
           Some (Rejected (RequestTimedOut (t_timeout c) (m_type (t_message c))))"
    and "map_of (pendingRequests (timer_fires b t)) rid = None"
  using inf rid
  by (auto simp: in_flight_def timer_fires_def Let_def map_of_settle delete_conv' no_requestId_def)

lemma late_response_ignored:
  assumes "map_of (pendingRequests b) rid = None"
    and "get_prop m ''requestId'' = VStr rid"
  shows "handleMessage b m = b"
proof -
  have "rid \<notin> set (map fst (pendingRequests b))"
    using assms(1) by (simp add: map_of_eq_None_iff)
  then show ?thesis
    using assms(2) by (intro handleMessage_ignored) auto
qed


lemma handleMessage_idem: "handleMessage (handleMessage b m) m = handleMessage b m"
proof -
  consider (ignored) "handleMessage b m = b"
    | (resolved) rid pr where "validateMessage m" "get_prop m ''requestId'' = VStr rid"
        "rid \<noteq> []" "map_of (pendingRequests b) rid = Some pr"
    using handleMessage_cases by blast
  then show ?thesis
  proof cases
    case ignored
    then show ?thesis by simp
  next
    case resolved
    have "map_of (pendingRequests (handleMessage b m)) rid = None"
      by (simp add: handleMessage_effect(2)[OF resolved] delete_conv')
    then show ?thesis
      using resolved(2) by (rule late_response_ignored)
  qed
qed

lemma handleMessage_delivered_update:
  "handleMessage (b\<lparr>delivered := d\<rparr>) m = (handleMessage b m)\<lparr>delivered := d\<rparr>"
  by (simp add: handleMessage_def Let_def settle_def
      split: jsval.splits option.splits promise_state.splits)

lemma handleMessage_delivered: "delivered (handleMessage b m) = delivered b"
  using handleMessage_cases[of b m] handleMessage_effect(7)[of m _ b] by auto

lemma foldl_call_listener:
  "foldl (call_listener m) b ls =
     (if HandleMessage \<in> set ls then handleMessage b m else b)
       \<lparr>delivered := delivered b @ map (\<lambda>l. (l, m)) (user_listeners ls)\<rparr>"
proof (induction ls arbitrary: b)
  case Nil
  then show ?case by simp
next
  case (Cons l ls)
  show ?case
  proof (cases l)
    case HandleMessage
    then show ?thesis
      by (simp add: Cons.IH handleMessage_idem handleMessage_delivered)
  next
    case (UserListener n)
    then show ?thesis
      by (simp add: Cons.IH handleMessage_delivered_update)
  qed
qed

lemma dispatch_message_eq:
  "dispatch_message b m =
     (if HandleMessage \<in> set (message_listeners b) then handleMessage b m else b)
       \<lparr>delivered := delivered b @ map (\<lambda>l. (l, m)) (user_listeners (message_listeners b))\<rparr>"
  by (simp add: dispatch_message_def foldl_call_listener)

lemma in_user_listeners: "l \<in> set (user_listeners ls) \<longleftrightarrow> UserListener l \<in> set ls"
  by (induction ls rule: user_listeners.induct) auto

lemma validateMessage_payload: "validateMessage m \<Longrightarrow> truthy (get_prop m ''payload'')"
proof -
  have t: "z_object v \<Longrightarrow> truthy v" for v
    by (cases v) simp_all
  show "validateMessage m \<Longrightarrow> truthy (get_prop m ''payload'')"
    by (auto simp: validateMessage_def baseMessageSchema_extend_def castReadySchema_def castInitializedSchema_def
        castScanDevicesSchema_def castDevicesUpdatedSchema_def castStartSessionSchema_def
        castSessionUpdatedSchema_def castEndSessionSchema_def castStateUpdateSchema_def
        castStateConfirmedSchema_def castErrorSchema_def intro: t)
qed

text \<open>
  Claim C6, as amended. An inbound message that passes \<open>validateMessage\<close> and whose
  \<open>requestId\<close> matches a pending request is handled by the bridge's \<open>handleMessage\<close>: the entry is removed and the
  request's promise, if still pending, is resolved with the payload. The bridge forwards
  nothing itself: \<open>addEventListener\<close> registers a listener on the window, and the window
  calls every such listener with every message event, this one included.
\<close>

theorem correlated_response_resolves_and_is_delivered:
  assumes "validateMessage m"
    and "get_prop m ''requestId'' = VStr rid" and "rid \<noteq> []"
    and "map_of (pendingRequests b) rid = Some pr"
    and "HandleMessage \<in> set (message_listeners b)"
  shows "map_of (pendingRequests (dispatch_message b m)) rid = None
       \<and> (map_of (promises b) (pr_promise pr) = Some Pending \<longrightarrow>
            map_of (promises (dispatch_message b m)) (pr_promise pr)
              = Some (Resolved (get_prop m ''payload'')))
       \<and> delivered (dispatch_message b m) =
            delivered b @ map (\<lambda>l. (l, m)) (user_listeners (message_listeners b))
       \<and> (\<forall>l. (''message'', UserListener l) \<in> set (window_listeners b) \<longrightarrow>
            (l, m) \<in> set (delivered (dispatch_message b m)))"
proof -
  note eff = handleMessage_effect[OF assms(1-4)]
  have 1: "map_of (pendingRequests (dispatch_message b m)) rid = None"
    using assms(5) by (simp add: dispatch_message_eq eff(2) delete_conv')
  have 2: "map_of (promises b) (pr_promise pr) = Some Pending \<longrightarrow>
            map_of (promises (dispatch_message b m)) (pr_promise pr)
              = Some (Resolved (get_prop m ''payload''))"
    using assms(5) validateMessage_payload[OF assms(1)]
    by (simp add: dispatch_message_eq eff(4))
  have 3: "delivered (dispatch_message b m) =
            delivered b @ map (\<lambda>l. (l, m)) (user_listeners (message_listeners b))"
    by (simp add: dispatch_message_eq)
  have 4: "(l, m) \<in> set (delivered (dispatch_message b m))"
    if "(''message'', UserListener l) \<in> set (window_listeners b)" for l
  proof -
    have "UserListener l \<in> set (message_listeners b)"
      using that by (force simp: message_listeners_def)
    then show ?thesis
      by (simp add: 3 in_user_listeners)
  qed
  show ?thesis
    using 1 2 3 4 by blast
qed

theorem correlated_response_resolves_and_is_delivered_witness:
  "map_of (pendingRequests
       (dispatch_message
          (snd (sendMessageWithResponse
              (addEventListener (new_WebViewBridge None None None) ''message'' 1)
              \<lparr>m_type = ''CAST_END_SESSION'', m_payload = VObj 1 Plain [],
               m_requestId = Some ''r7''\<rparr> None))
          (VObj 2 Plain [(''type'', VStr ''CAST_STATE_CONFIRMED''),
             (''payload'', VObj 3 Plain [(''status'', VStr ''ok'')]),
             (''requestId'', VStr ''r7'')]))) ''r7'' = None
   \<and> map_of (promises
       (dispatch_message
          (snd (sendMessageWithResponse
              (addEventListener (new_WebViewBridge None None None) ''message'' 1)
              \<lparr>m_type = ''CAST_END_SESSION'', m_payload = VObj 1 Plain [],
               m_requestId = Some ''r7''\<rparr> None))
          (VObj 2 Plain [(''type'', VStr ''CAST_STATE_CONFIRMED''),
             (''payload'', VObj 3 Plain [(''status'', VStr ''ok'')]),
             (''requestId'', VStr ''r7'')]))) 0
       = Some (Resolved (VObj 3 Plain [(''status'', VStr ''ok'')]))
   \<and> (1, VObj 2 Plain [(''type'', VStr ''CAST_STATE_CONFIRMED''),
             (''payload'', VObj 3 Plain [(''status'', VStr ''ok'')]),
             (''requestId'', VStr ''r7'')])
       \<in> set (delivered
       (dispatch_message
          (snd (sendMessageWithResponse
              (addEventListener (new_WebViewBridge None None None) ''message'' 1)
              \<lparr>m_type = ''CAST_END_SESSION'', m_payload = VObj 1 Plain [],
               m_requestId = Some ''r7''\<rparr> None))
          (VObj 2 Plain [(''type'', VStr ''CAST_STATE_CONFIRMED''),
             (''payload'', VObj 3 Plain [(''status'', VStr ''ok'')]),
             (''requestId'', VStr ''r7'')])))"
proof -
  define b where "b = snd (sendMessageWithResponse
              (addEventListener (new_WebViewBridge None None None) ''message'' 1)
              \<lparr>m_type = ''CAST_END_SESSION'', m_payload = VObj 1 Plain [],
               m_requestId = Some ''r7''\<rparr> None)"
  define m where "m = VObj 2 Plain [(''type'', VStr ''CAST_STATE_CONFIRMED''),
             (''payload'', VObj 3 Plain [(''status'', VStr ''ok'')]),
             (''requestId'', VStr ''r7'')]"
  have v: "validateMessage m"
    unfolding m_def by code_simp
  have r: "get_prop m ''requestId'' = VStr ''r7''" and ne: "''r7'' \<noteq> []"
    and pl: "get_prop m ''payload'' = VObj 3 Plain [(''status'', VStr ''ok'')]"
    unfolding m_def by code_simp+
  have pr: "map_of (pendingRequests b) ''r7'' = Some \<lparr>pr_promise = 0, pr_timer = 1\<rparr>"
    unfolding b_def by code_simp
  have h: "HandleMessage \<in> set (message_listeners b)"
    unfolding b_def by code_simp
  have pend: "map_of (promises b) 0 = Some Pending"
    unfolding b_def by code_simp
  have reg: "(''message'', UserListener 1) \<in> set (window_listeners b)"
    unfolding b_def by code_simp
  note T = correlated_response_resolves_and_is_delivered[OF v r ne pr h, unfolded pl]
  have c1: "map_of (pendingRequests (dispatch_message b m)) ''r7'' = None"
    using T by blast
  have "map_of (promises b) (pr_promise \<lparr>pr_promise = 0, pr_timer = 1\<rparr>) = Some Pending"
    using pend by simp
  then have "map_of (promises (dispatch_message b m)) (pr_promise \<lparr>pr_promise = 0, pr_timer = 1\<rparr>)
      = Some (Resolved (VObj 3 Plain [(''status'', VStr ''ok'')]))"
    using T by blast
  then have c2: "map_of (promises (dispatch_message b m)) 0
      = Some (Resolved (VObj 3 Plain [(''status'', VStr ''ok'')]))"
    by simp
  have c3: "(1, m) \<in> set (delivered (dispatch_message b m))"
    using T reg by blast
  show ?thesis
    using c1 c2 c3 unfolding b_def m_def by blast
qed

text \<open>
  Claim C6 as stated fails: a listener registered with \<open>addEventListener\<close> receives a
  response that the bridge has matched to a pending request. And a message that carries
  the \<open>requestId\<close> of a pending request but does not pass \<open>validateMessage\<close> (here
  one of a type outside the union of schemas) resolves nothing.
\<close>

theorem correlated_response_observed_by_listener:
  "map_of (pendingRequests
      (snd (sendMessageWithResponse
              (addEventListener (new_WebViewBridge None None None) ''message'' 1)
              \<lparr>m_type = ''CAST_START_SESSION'',
               m_payload = VObj 1 Plain [(''deviceId'', VStr ''tv'')],
               m_requestId = Some ''r1''\<rparr> None))) ''r1''
     = Some \<lparr>pr_promise = 0, pr_timer = 1\<rparr>
   \<and> validateMessage
        (VObj 2 Plain [(''type'', VStr ''CAST_SESSION_UPDATED''),
           (''payload'', VObj 3 Plain [(''status'', VStr ''connected''), (''deviceId'', VStr ''tv''),
              (''deviceName'', VStr ''TV''), (''sessionId'', VStr ''s1''), (''error'', VNull)]),
           (''requestId'', VStr ''r1'')])
   \<and> delivered
       (dispatch_message
          (snd (sendMessageWithResponse
              (addEventListener (new_WebViewBridge None None None) ''message'' 1)
              \<lparr>m_type = ''CAST_START_SESSION'',
               m_payload = VObj 1 Plain [(''deviceId'', VStr ''tv'')],
               m_requestId = Some ''r1''\<rparr> None))
          (VObj 2 Plain [(''type'', VStr ''CAST_SESSION_UPDATED''),
           (''payload'', VObj 3 Plain [(''status'', VStr ''connected''), (''deviceId'', VStr ''tv''),
              (''deviceName'', VStr ''TV''), (''sessionId'', VStr ''s1''), (''error'', VNull)]),
           (''requestId'', VStr ''r1'')]))
     = [(1, VObj 2 Plain [(''type'', VStr ''CAST_SESSION_UPDATED''),
           (''payload'', VObj 3 Plain [(''status'', VStr ''connected''), (''deviceId'', VStr ''tv''),
              (''deviceName'', VStr ''TV''), (''sessionId'', VStr ''s1''), (''error'', VNull)]),
           (''requestId'', VStr ''r1'')])]
   \<and> \<not> validateMessage
        (VObj 4 Plain [(''type'', VStr ''CAST_START_SESSION_RESPONSE''),
           (''payload'', VObj 5 Plain [(''success'', VBool True)]),
           (''requestId'', VStr ''r1'')])
   \<and> map_of (promises
       (dispatch_message
          (snd (sendMessageWithResponse
              (addEventListener (new_WebViewBridge None None None) ''message'' 1)
              \<lparr>m_type = ''CAST_START_SESSION'',
               m_payload = VObj 1 Plain [(''deviceId'', VStr ''tv'')],
               m_requestId = Some ''r1''\<rparr> None))
          (VObj 4 Plain [(''type'', VStr ''CAST_START_SESSION_RESPONSE''),
           (''payload'', VObj 5 Plain [(''success'', VBool True)]),
           (''requestId'', VStr ''r1'')]))) 0 = Some Pending"
  by code_simp

text \<open>
  Claim C5. A request sent with \<open>sendMessageWithResponse\<close> that gets no matching
  response before its timer expires (whatever else happens meanwhile, short of disposing
  the bridge) is rejected with the timeout error and its entry leaves \<open>pendingRequests\<close>;
  a response carrying its \<open>requestId\<close> that arrives afterwards leaves the bridge as it
  is, and nothing that happens later changes the outcome of the promise.
\<close>

theorem timeout_rejects_and_late_response_is_ignored:
  assumes "ids_fresh b0"
    and "m_requestId message = Some rid"
    and "sendMessageWithResponse b0 message tmo = (Inr p, b1)"
    and "\<forall>ev \<in> set es. quiet rid (Suc (nextId b0)) ev"
    and "b3 = timer_fires (bridge_run b1 es) (Suc (nextId b0))"
    and "ms = (case tmo of None \<Rightarrow> timeout b0 | Some t \<Rightarrow> t)"
  shows "map_of (promises b3) p = Some (Rejected (RequestTimedOut ms (m_type message)))
       \<and> map_of (pendingRequests b3) rid = None
       \<and> (\<forall>late. get_prop late ''requestId'' = VStr rid \<longrightarrow>
             handleMessage b3 late = b3
             \<and> promises (dispatch_message b3 late) = promises b3
             \<and> pendingRequests (dispatch_message b3 late) = pendingRequests b3)
       \<and> (\<forall>later. map_of (promises (bridge_run b3 later)) p
                     = Some (Rejected (RequestTimedOut ms (m_type message))))"
proof -
  define c where "c = \<lparr>t_message = message, t_timeout = ms, t_promise = p\<rparr>"
  note s = send_in_flight[OF assms(1,3,2)]
  have inf1: "in_flight b1 rid p (Suc (nextId b0)) c"
    using s(3) by (simp add: c_def assms(6))
  have run: "in_flight (bridge_run b1 es) rid p (Suc (nextId b0)) c"
    and fresh2: "ids_fresh (bridge_run b1 es)"
    using in_flight_quiet_run[OF s(4) inf1 assms(4)] by simp_all
  have cm: "m_requestId (t_message c) = Some rid"
    by (simp add: c_def assms(2))
  have rej: "map_of (promises b3) p = Some (Rejected (RequestTimedOut ms (m_type message)))"
    using timer_fires_in_flight(1)[OF run cm s(2)] by (simp add: assms(5) c_def)
  have gone: "map_of (pendingRequests b3) rid = None"
    using timer_fires_in_flight(2)[OF run cm s(2)] by (simp add: assms(5))
  have fresh3: "ids_fresh b3"
    unfolding assms(5) using fresh2 by (rule timer_fires_fresh)
  have late: "handleMessage b3 late = b3
      \<and> promises (dispatch_message b3 late) = promises b3
      \<and> pendingRequests (dispatch_message b3 late) = pendingRequests b3"
    if "get_prop late ''requestId'' = VStr rid" for late
  proof -
    have "handleMessage b3 late = b3"
      using gone that by (rule late_response_ignored)
    then show ?thesis
      by (simp add: dispatch_message_eq)
  qed
  have once: "map_of (promises (bridge_run b3 later)) p
                = Some (Rejected (RequestTimedOut ms (m_type message)))" for later
    using fresh3 rej by (rule run_settled) simp
  show ?thesis
    using rej gone late once by blast
qed

theorem timeout_rejects_and_late_response_is_ignored_witness:
  "map_of (promises
     (timer_fires
        (bridge_run
           (snd (sendMessageWithResponse (new_WebViewBridge None None None)
                   \<lparr>m_type = ''CAST_SCAN_DEVICES'', m_payload = VObj 1 Plain [],
                    m_requestId = Some ''r1''\<rparr> None))
           [MessageEvent (VObj 2 Plain [(''type'', VStr ''CAST_DEVICES_UPDATED''),
              (''payload'', VObj 3 Plain [(''devices'', VObj 4 Arr [])])])])
        1)) 0
     = Some (Rejected (RequestTimedOut 5000 ''CAST_SCAN_DEVICES''))
   \<and> handleMessage
     (timer_fires
        (bridge_run
           (snd (sendMessageWithResponse (new_WebViewBridge None None None)
                   \<lparr>m_type = ''CAST_SCAN_DEVICES'', m_payload = VObj 1 Plain [],
                    m_requestId = Some ''r1''\<rparr> None))
           [MessageEvent (VObj 2 Plain [(''type'', VStr ''CAST_DEVICES_UPDATED''),
              (''payload'', VObj 3 Plain [(''devices'', VObj 4 Arr [])])])])
        1)
     (VObj 5 Plain [(''type'', VStr ''CAST_DEVICES_UPDATED''),
        (''payload'', VObj 6 Plain [(''devices'', VObj 7 Arr [])]), (''requestId'', VStr ''r1'')])
     = timer_fires
        (bridge_run
           (snd (sendMessageWithResponse (new_WebViewBridge None None None)
                   \<lparr>m_type = ''CAST_SCAN_DEVICES'', m_payload = VObj 1 Plain [],
                    m_requestId = Some ''r1''\<rparr> None))
           [MessageEvent (VObj 2 Plain [(''type'', VStr ''CAST_DEVICES_UPDATED''),
              (''payload'', VObj 3 Plain [(''devices'', VObj 4 Arr [])])])])
        1"
proof -
  define b0 where "b0 = new_WebViewBridge None None None"
  define message where "message =
    \<lparr>m_type = ''CAST_SCAN_DEVICES'', m_payload = VObj 1 Plain [], m_requestId = Some ''r1''\<rparr>"
  define es where "es = [MessageEvent (VObj 2 Plain [(''type'', VStr ''CAST_DEVICES_UPDATED''),
              (''payload'', VObj 3 Plain [(''devices'', VObj 4 Arr [])])])]"
  define late where "late = VObj 5 Plain [(''type'', VStr ''CAST_DEVICES_UPDATED''),
        (''payload'', VObj 6 Plain [(''devices'', VObj 7 Arr [])]), (''requestId'', VStr ''r1'')]"
  define b1 where "b1 = snd (sendMessageWithResponse b0 message None)"
  have fresh: "ids_fresh b0"
    unfolding b0_def by code_simp
  have rid: "m_requestId message = Some ''r1''"
    by (simp add: message_def)
  have "fst (sendMessageWithResponse b0 message None) = Inr 0"
    unfolding b0_def message_def by code_simp
  then have send: "sendMessageWithResponse b0 message None = (Inr 0, b1)"
    by (simp add: b1_def prod_eq_iff)
  have n0: "Suc (nextId b0) = 1" and t0: "timeout b0 = 5000"
    unfolding b0_def by code_simp+
  have q: "\<forall>ev \<in> set es. quiet ''r1'' (Suc (nextId b0)) ev"
    unfolding b0_def es_def by code_simp
  have lr: "get_prop late ''requestId'' = VStr ''r1''"
    unfolding late_def by code_simp
  show ?thesis
    using timeout_rejects_and_late_response_is_ignored[OF fresh rid send q refl refl] lr
    unfolding n0 t0
    by (simp add: b0_def message_def es_def late_def b1_def)
qed

section \<open>Properties of the client\<close>

lemma lookup_spread:
  "lookup (spread a b) key = (case map_of (rev b) key of None \<Rightarrow> lookup a key | Some v \<Rightarrow> v)"
  by (simp add: lookup_def spread_map_of map_add_def split: option.splits)

lemma state_setState: "state (setState sm (Partial p)) = spread (state sm) p"
  by (simp add: setState_def state_notifyListeners)

lemma field_setState:
  "field (client_setState c p) key =
     (case map_of (rev p) key of None \<Rightarrow> field c key | Some v \<Rightarrow> v)"
  by (simp add: field_def client_setState_def client_getState_def getState_def state_setState
      lookup_spread split: option.splits)

lemma field_log [simp]: "field (log c ty msg d) key = field c key"
  by (simp add: field_def log_def client_getState_def)

lemma field_alloc [simp]: "field (snd (alloc c)) key = field c key"
  by (simp add: field_def alloc_def client_getState_def getState_def)

lemma field_send [simp]: "field (bridge_sendMessageWithResponse c m) key = field c key"
  by (simp add: field_def bridge_sendMessageWithResponse_def client_getState_def)

lemma field_handleError:
  "field (handleError c msg e) key =
     (if key = ''error''
      then VObj (heap (stateManager c)) Plain
             [(''code'', VStr ''BRIDGE_ERROR''), (''message'', VStr msg),
              (''details'', VObj (Suc (heap (stateManager c))) Plain [(''originalError'', e)])]
      else field c key)"
  by (simp add: handleError_def Let_def split_beta field_setState)
     (simp add: alloc_def log_def)


lemma sm_alloc [simp]:
  "state (stateManager (snd (alloc c))) = state (stateManager c)"
  "listeners (stateManager (snd (alloc c))) = listeners (stateManager c)"
  "selectors (stateManager (snd (alloc c))) = selectors (stateManager c)"
  "calls (stateManager (snd (alloc c))) = calls (stateManager c)"
  "sent (snd (alloc c)) = sent c"
  "logs (snd (alloc c)) = logs c"
  by (simp_all add: alloc_def)

lemma field_signalReady_begin [simp]: "field (signalReady_begin c params rid) key = field c key"
  by (simp add: signalReady_begin_def Let_def split_beta)

lemma field_scan_begin:
  "field (scanForDevices_begin c rid) key =
     (if key = ''isScanning'' then VBool True else field c key)"
  by (simp add: scanForDevices_begin_def Let_def split_beta field_setState)

lemma field_scan_resume:
  "key \<noteq> ''error'' \<Longrightarrow>
   field (fst (scanForDevices_resume c out)) key =
     (case out of
        Resolves r \<Rightarrow> field c key
      | Rejects e \<Rightarrow> (if key = ''isScanning'' then VBool False else field c key))"
  by (cases out) (simp_all add: scanForDevices_resume_def field_handleError field_setState)

lemma field_start_begin:
  "field (startCasting_begin c d opts rid) key =
     (if key = ''isConnecting'' then VBool True
      else if key = ''deviceId'' then VStr d else field c key)"
  by (simp add: startCasting_begin_def Let_def split_beta field_setState)


lemma field_start_resume:
  "key \<noteq> ''error'' \<Longrightarrow>
   field (fst (startCasting_resume c out)) key =
     (case out of
        Resolves r \<Rightarrow> field c key
      | Rejects e \<Rightarrow>
          (if key = ''isConnecting'' then VBool False
           else if key = ''deviceId'' then VNull else field c key))"
  by (cases out) (simp_all add: startCasting_resume_def field_handleError field_setState)

lemma field_stop_begin [simp]: "field (fst (stopCasting_begin c rid)) key = field c key"
  by (simp add: stopCasting_begin_def Let_def split_beta)

lemma field_stop_resume:
  "key \<noteq> ''error'' \<Longrightarrow>
   field (fst (stopCasting_resume c out)) key =
     (case out of
        Resolves r \<Rightarrow>
          (if key = ''isCasting'' \<or> key = ''isConnecting'' then VBool False
           else if key = ''deviceId'' \<or> key = ''deviceName'' \<or> key = ''sessionId'' then VNull
           else field c key)
      | Rejects e \<Rightarrow> field c key)"
  by (cases out) (auto simp: stopCasting_resume_def field_handleError field_setState)

lemma field_update_begin [simp]: "field (fst (sendStateUpdate_begin c st now rid)) key = field c key"
  by (simp add: sendStateUpdate_begin_def Let_def split_beta)

lemma field_update_resume:
  "key \<noteq> ''error'' \<Longrightarrow> field (fst (sendStateUpdate_resume c out)) key = field c key"
  by (cases out) (simp_all add: sendStateUpdate_resume_def field_handleError)

lemma field_signalReady_resume:
  "key \<noteq> ''error'' \<Longrightarrow> key \<noteq> ''isAvailable'' \<Longrightarrow> key \<noteq> ''devices'' \<Longrightarrow>
   field (fst (signalReady_resume c out)) key = field c key"
  by (cases out)
     (simp_all add: signalReady_resume_def field_handleError field_setState Let_def split_beta)

lemma field_resetError:
  "field (resetError c) key = (if key = ''error'' then VNull else field c key)"
  by (simp add: resetError_def field_setState)

lemma onMessage_flags:
  assumes "mutually_exclusive c"
  shows "mutually_exclusive (fst (onMessage c message))"
  using assms
  by (simp add: onMessage_def mutually_exclusive_def Let_def split_beta field_setState)


lemma begin_op_exclusive:
  assumes "mutually_exclusive c"
    and "\<And>d opts. op = StartCasting d opts \<Longrightarrow> field c ''isCasting'' \<noteq> VBool True"
  shows "mutually_exclusive (fst (begin_op c op rid))"
  using assms
  by (cases op) (simp_all add: mutually_exclusive_def field_scan_begin field_start_begin field_resetError)

lemma resume_op_exclusive:
  assumes "mutually_exclusive c"
  shows "mutually_exclusive (fst (resume_op c op out))"
  using assms
  by (cases op; cases out)
     (simp_all add: mutually_exclusive_def field_signalReady_resume field_scan_resume
        field_start_resume field_stop_resume field_update_resume)

lemma exec_step_exclusive:
  assumes "mutually_exclusive (fst cfg)"
    and "starts_when_not_casting cfg [s]"
  shows "mutually_exclusive (fst (exec_step cfg s))"
proof (cases cfg)
  case (Pair c awaiting)
  show ?thesis
  proof (cases s)
    case (Call op rid)
    have "mutually_exclusive (fst (begin_op c op rid))"
      using assms Pair Call by (intro begin_op_exclusive) auto
    then show ?thesis
      using Pair Call by (auto split: prod.splits option.splits)
  next
    case (Event m)
    then show ?thesis
      using assms(1) Pair by (simp add: onMessage_flags)
  next
    case (Settle i out)
    then show ?thesis
      using assms(1) Pair by (simp add: resume_op_exclusive)
  qed
qed

lemma exec_exclusive:
  "mutually_exclusive (fst cfg) \<Longrightarrow> starts_when_not_casting cfg steps \<Longrightarrow>
   mutually_exclusive (fst (exec cfg steps))"
  unfolding exec_def
proof (induction steps arbitrary: cfg)
  case Nil
  then show ?case by simp
next
  case (Cons s steps)
  have "mutually_exclusive (fst (exec_step cfg s))"
    using Cons.prems by (intro exec_step_exclusive) (auto split: step.splits operation.splits)
  then show ?case
    using Cons.IH[of "exec_step cfg s"] Cons.prems(2) by simp
qed

lemma initial_exclusive: "mutually_exclusive (fst initial_config)"
  by code_simp

text \<open>
  Claim C2, as amended. From the initial state, along every run of operation calls,
  inbound events and settled sends in which \<open>startCasting\<close> is only called while
  \<open>isCasting\<close> is not true, \<open>isCasting\<close> and \<open>isConnecting\<close> are never both true
  (in every state of the run, settled or not).
\<close>

theorem casting_and_connecting_exclusive_unless_restarted:
  assumes "starts_when_not_casting initial_config steps"
  shows "mutually_exclusive (fst (exec initial_config steps))"
  using initial_exclusive assms by (rule exec_exclusive)

text \<open>
  Claim C2 as stated fails: \<open>startCasting\<close> called again while casting sets
  \<open>isConnecting\<close> and leaves \<open>isCasting\<close> true, and the state stays so once its send
  has succeeded and no operation is pending.
\<close>

theorem start_while_casting_breaks_exclusion:
  "snd (exec initial_config
      [Call (StartCasting ''tv1'' VUndef) ''r1'',
       Settle 0 (Resolves (VObj 100 Plain [])),
       Event (VObj 101 Plain [(''type'', VStr ''CAST_SESSION_UPDATED''),
         (''payload'', VObj 102 Plain [(''status'', VStr ''connected''), (''deviceId'', VStr ''tv1''),
            (''deviceName'', VStr ''TV 1''), (''sessionId'', VStr ''s1''), (''error'', VNull)])]),
       Call (StartCasting ''tv2'' VUndef) ''r2'',
       Settle 0 (Resolves (VObj 103 Plain []))]) = []
   \<and> \<not> mutually_exclusive (fst (exec initial_config
      [Call (StartCasting ''tv1'' VUndef) ''r1'',
       Settle 0 (Resolves (VObj 100 Plain [])),
       Event (VObj 101 Plain [(''type'', VStr ''CAST_SESSION_UPDATED''),
         (''payload'', VObj 102 Plain [(''status'', VStr ''connected''), (''deviceId'', VStr ''tv1''),
            (''deviceName'', VStr ''TV 1''), (''sessionId'', VStr ''s1''), (''error'', VNull)])]),
       Call (StartCasting ''tv2'' VUndef) ''r2'',
       Settle 0 (Resolves (VObj 103 Plain []))]))"
  by (simp add: exec_def initial_config_def mutually_exclusive_def field_start_begin
      field_start_resume onMessage_def Let_def split_beta field_setState get_prop_def lookup_def nullish_def)

lemma field_new_client: "field (new_CastKitClient d a) key = lookup initialState key"
  by (simp add: new_CastKitClient_def Let_def split_beta)
     (simp add: field_def client_getState_def getState_def alloc_def new_StateManager_def
        spread_def initialState_def lookup_def)

lemma stopCasting_begin_snd:
  "snd (stopCasting_begin c rid) = (if truthy (field c ''sessionId'') then None else Some Returned)"
  by (simp add: stopCasting_begin_def Let_def split_beta field_def)


text \<open>
  Claim C4. In a state whose \<open>sessionId\<close> is \<open>null\<close>, \<open>stopCasting()\<close> returns
  normally at once, sends no message and leaves the state manager (the whole state, its
  \<open>error\<close> included, and the record of listener calls) as it was.
\<close>

theorem stopCasting_without_session_is_noop:
  assumes "field c ''sessionId'' = VNull"
  shows "snd (stopCasting_begin c rid) = Some Returned
       \<and> sent (fst (stopCasting_begin c rid)) = sent c
       \<and> stateManager (fst (stopCasting_begin c rid)) = stateManager c"
  using assms by (simp add: stopCasting_begin_def field_def log_def)

text \<open>
  Claim C10. A \<open>CAST_SESSION_UPDATED\<close> event whose payload has status
  \<open>'connecting'\<close> makes the client's listener perform no state update: the state
  manager, hence the whole state, is the same before and after (only the log grows).
\<close>

theorem session_connecting_event_changes_nothing:
  assumes "get_prop message ''type'' = VStr ''CAST_SESSION_UPDATED''"
    and "get_prop (get_prop message ''payload'') ''status'' = VStr ''connecting''"
  shows "stateManager (fst (onMessage c message)) = stateManager c
       \<and> client_getState (fst (onMessage c message)) = client_getState c
       \<and> snd (onMessage c message) = Normal"
proof -
  have t: "truthy message"
    using assms(1) by (cases message) (simp_all add: get_prop_def lookup_def)
  have n: "\<not> nullish (get_prop message ''payload'')"
    using assms(2) by (auto simp: nullish_def get_prop_def lookup_def)
  show ?thesis
    using t n assms
    by (simp add: onMessage_def Let_def log_def client_getState_def)
qed

text \<open>
  Claim C3, as amended. In a state with a truthy \<open>sessionId\<close>, \<open>stopCasting()\<close> sends
  one \<open>CAST_END_SESSION\<close> message and awaits; when that send succeeds, \<open>isCasting\<close>
  and \<open>isConnecting\<close> become false and \<open>deviceId\<close>, \<open>deviceName\<close>, \<open>sessionId\<close>
  become \<open>null\<close>, and every other property of the state, the \<open>devices\<close> list
  included, stays as it was.
\<close>

theorem stopCasting_success_clears_session_only:
  assumes "truthy (field c ''sessionId'')"
  shows "snd (stopCasting_begin c rid) = None
       \<and> map (\<lambda>e. m_type (fst e)) (sent (fst (stopCasting_begin c rid)))
           = map (\<lambda>e. m_type (fst e)) (sent c) @ [''CAST_END_SESSION'']
       \<and> field (fst (stopCasting_resume c2 (Resolves response))) ''isCasting'' = VBool False
       \<and> field (fst (stopCasting_resume c2 (Resolves response))) ''isConnecting'' = VBool False
       \<and> field (fst (stopCasting_resume c2 (Resolves response))) ''deviceId'' = VNull
       \<and> field (fst (stopCasting_resume c2 (Resolves response))) ''deviceName'' = VNull
       \<and> field (fst (stopCasting_resume c2 (Resolves response))) ''sessionId'' = VNull
       \<and> (\<forall>key. key \<notin> set session_keys \<longrightarrow>
             field (fst (stopCasting_resume c2 (Resolves response))) key = field c2 key)
       \<and> field (fst (stopCasting_resume c2 (Resolves response))) ''devices'' = field c2 ''devices''
       \<and> snd (stopCasting_resume c2 (Resolves response)) = Returned"
proof -
  have b: "snd (stopCasting_begin c rid) = None"
    using assms by (simp add: stopCasting_begin_snd)
  have s: "map (\<lambda>e. m_type (fst e)) (sent (fst (stopCasting_begin c rid)))
           = map (\<lambda>e. m_type (fst e)) (sent c) @ [''CAST_END_SESSION'']"
    using assms
    by (simp add: stopCasting_begin_def field_def Let_def split_beta
        bridge_sendMessageWithResponse_def createMessage_def log_def)
  have r: "fst (stopCasting_resume c2 (Resolves response)) =
      client_setState c2 [(''isCasting'', VBool False), (''isConnecting'', VBool False),
          (''deviceId'', VNull), (''deviceName'', VNull), (''sessionId'', VNull)]"
    and r': "snd (stopCasting_resume c2 (Resolves response)) = Returned"
    by (simp_all add: stopCasting_resume_def)
  show ?thesis
    using b s unfolding r r' by (simp add: field_setState session_keys_def)
qed

text \<open>
  Claim C7, as amended. \<open>scanForDevices()\<close> sets \<open>isScanning\<close> to true before it sends
  \<open>CAST_SCAN_DEVICES\<close> (the state at the moment of the send has it true). A
  successful ack changes nothing; \<open>isScanning\<close> goes back to false when a
  \<open>CAST_DEVICES_UPDATED\<close> event is handled, or when the send fails.
\<close>

theorem scanning_set_before_send_and_cleared_by_event:
  "map (\<lambda>e. (m_type (fst e), lookup (snd e) ''isScanning'')) (sent (scanForDevices_begin c rid))
     = map (\<lambda>e. (m_type (fst e), lookup (snd e) ''isScanning'')) (sent c)
         @ [(''CAST_SCAN_DEVICES'', VBool True)]
   \<and> field (scanForDevices_begin c rid) ''isScanning'' = VBool True
   \<and> scanForDevices_resume c2 (Resolves response) = (c2, Returned)
   \<and> (get_prop message ''type'' = VStr ''CAST_DEVICES_UPDATED''
        \<and> \<not> nullish (get_prop message ''payload'')
        \<longrightarrow> field (fst (onMessage c2 message)) ''isScanning'' = VBool False)
   \<and> field (fst (scanForDevices_resume c2 (Rejects error))) ''isScanning'' = VBool False"
proof -
  have 1: "map (\<lambda>e. (m_type (fst e), lookup (snd e) ''isScanning'')) (sent (scanForDevices_begin c rid))
     = map (\<lambda>e. (m_type (fst e), lookup (snd e) ''isScanning'')) (sent c)
         @ [(''CAST_SCAN_DEVICES'', VBool True)]"
    by (simp add: scanForDevices_begin_def Let_def split_beta bridge_sendMessageWithResponse_def
        createMessage_def field_def[symmetric] field_setState)
       (simp add: client_setState_def log_def)
  have 4: "field (fst (onMessage c2 message)) ''isScanning'' = VBool False"
    if "get_prop message ''type'' = VStr ''CAST_DEVICES_UPDATED''"
      and "\<not> nullish (get_prop message ''payload'')"
  proof -
    have "truthy message"
      using that(1) by (cases message) (simp_all add: get_prop_def lookup_def)
    then show ?thesis
      using that by (simp add: onMessage_def Let_def split_beta field_setState)
  qed
  have 3: "scanForDevices_resume c2 (Resolves response) = (c2, Returned)"
    by (simp add: scanForDevices_resume_def)
  have 5: "field (fst (scanForDevices_resume c2 (Rejects error))) ''isScanning'' = VBool False"
    by (simp add: field_scan_resume)
  show ?thesis
    using 1 3 4 5 by (simp add: field_scan_begin)
qed

theorem casting_and_connecting_exclusive_unless_restarted_witness:
  "starts_when_not_casting initial_config
     [Call (StartCasting ''tv1'' VUndef) ''r1'',
      Event (VObj 101 Plain [(''type'', VStr ''CAST_SESSION_UPDATED''),
        (''payload'', VObj 102 Plain [(''status'', VStr ''connected''), (''deviceId'', VStr ''tv1''),
           (''deviceName'', VStr ''TV 1''), (''sessionId'', VStr ''s1''), (''error'', VNull)])]),
      Settle 0 (Resolves (VObj 100 Plain []))]
   \<and> mutually_exclusive (fst (exec initial_config
     [Call (StartCasting ''tv1'' VUndef) ''r1'',
      Event (VObj 101 Plain [(''type'', VStr ''CAST_SESSION_UPDATED''),
        (''payload'', VObj 102 Plain [(''status'', VStr ''connected''), (''deviceId'', VStr ''tv1''),
           (''deviceName'', VStr ''TV 1''), (''sessionId'', VStr ''s1''), (''error'', VNull)])]),
      Settle 0 (Resolves (VObj 100 Plain []))]))"
proof -
  have g: "starts_when_not_casting initial_config
     [Call (StartCasting ''tv1'' VUndef) ''r1'',
      Event (VObj 101 Plain [(''type'', VStr ''CAST_SESSION_UPDATED''),
        (''payload'', VObj 102 Plain [(''status'', VStr ''connected''), (''deviceId'', VStr ''tv1''),
           (''deviceName'', VStr ''TV 1''), (''sessionId'', VStr ''s1''), (''error'', VNull)])]),
      Settle 0 (Resolves (VObj 100 Plain []))]"
    by (simp add: initial_config_def field_new_client initialState_def lookup_def)
  show ?thesis
    using g casting_and_connecting_exclusive_unless_restarted[OF g] by blast
qed


theorem stopCasting_without_session_is_noop_witness:
  "field (fst initial_config) ''sessionId'' = VNull
   \<and> snd (stopCasting_begin (fst initial_config) ''r1'') = Some Returned
   \<and> sent (fst (stopCasting_begin (fst initial_config) ''r1'')) = sent (fst initial_config)
   \<and> stateManager (fst (stopCasting_begin (fst initial_config) ''r1''))
       = stateManager (fst initial_config)"
proof -
  have h: "field (fst initial_config) ''sessionId'' = VNull"
    by (simp add: initial_config_def field_new_client initialState_def lookup_def)
  show ?thesis
    using h stopCasting_without_session_is_noop[OF h, of "''r1''"] by blast
qed

theorem session_connecting_event_changes_nothing_witness:
  "client_getState (fst (onMessage (fst initial_config)
      (VObj 101 Plain [(''type'', VStr ''CAST_SESSION_UPDATED''),
        (''payload'', VObj 102 Plain [(''status'', VStr ''connecting''), (''deviceId'', VStr ''tv1''),
           (''deviceName'', VStr ''TV 1''), (''sessionId'', VStr ''s1''), (''error'', VNull)])])))
     = client_getState (fst initial_config)
   \<and> field (fst (onMessage (fst initial_config)
      (VObj 101 Plain [(''type'', VStr ''CAST_SESSION_UPDATED''),
        (''payload'', VObj 102 Plain [(''status'', VStr ''connecting''), (''deviceId'', VStr ''tv1''),
           (''deviceName'', VStr ''TV 1''), (''sessionId'', VStr ''s1''), (''error'', VNull)])])))
       ''isConnecting'' = VBool False"
proof -
  define m where "m = VObj 101 Plain [(''type'', VStr ''CAST_SESSION_UPDATED''),
        (''payload'', VObj 102 Plain [(''status'', VStr ''connecting''), (''deviceId'', VStr ''tv1''),
           (''deviceName'', VStr ''TV 1''), (''sessionId'', VStr ''s1''), (''error'', VNull)])]"
  have t: "get_prop m ''type'' = VStr ''CAST_SESSION_UPDATED''"
    and s: "get_prop (get_prop m ''payload'') ''status'' = VStr ''connecting''"
    by (simp_all add: m_def get_prop_def lookup_def)
  have i: "field (fst initial_config) ''isConnecting'' = VBool False"
    by (simp add: initial_config_def field_new_client initialState_def lookup_def)
  note T = session_connecting_event_changes_nothing[OF t s, of "fst initial_config"]
  then have "client_getState (fst (onMessage (fst initial_config) m))
     = client_getState (fst initial_config)"
    by blast
  then show ?thesis
    using i unfolding m_def by (simp add: field_def)
qed

theorem stopCasting_success_clears_session_only_witness:
  "truthy (field (fst (exec initial_config
      [Event (VObj 101 Plain [(''type'', VStr ''CAST_SESSION_UPDATED''),
        (''payload'', VObj 102 Plain [(''status'', VStr ''connected''), (''deviceId'', VStr ''tv1''),
           (''deviceName'', VStr ''TV 1''), (''sessionId'', VStr ''s1''), (''error'', VNull)])])]))
      ''sessionId'')
   \<and> snd (exec initial_config
      [Event (VObj 101 Plain [(''type'', VStr ''CAST_SESSION_UPDATED''),
        (''payload'', VObj 102 Plain [(''status'', VStr ''connected''), (''deviceId'', VStr ''tv1''),
           (''deviceName'', VStr ''TV 1''), (''sessionId'', VStr ''s1''), (''error'', VNull)])]),
       Call StopCasting ''r2'']) = [StopCasting]
   \<and> field (fst (exec initial_config
      [Event (VObj 101 Plain [(''type'', VStr ''CAST_SESSION_UPDATED''),
        (''payload'', VObj 102 Plain [(''status'', VStr ''connected''), (''deviceId'', VStr ''tv1''),
           (''deviceName'', VStr ''TV 1''), (''sessionId'', VStr ''s1''), (''error'', VNull)])]),
       Call StopCasting ''r2'',
       Settle 0 (Resolves (VObj 100 Plain []))])) ''sessionId'' = VNull"
proof -
  define c where "c = fst (onMessage (fst initial_config)
      (VObj 101 Plain [(''type'', VStr ''CAST_SESSION_UPDATED''),
        (''payload'', VObj 102 Plain [(''status'', VStr ''connected''), (''deviceId'', VStr ''tv1''),
           (''deviceName'', VStr ''TV 1''), (''sessionId'', VStr ''s1''), (''error'', VNull)])]))"
  have h: "truthy (field c ''sessionId'')"
    by (simp add: c_def onMessage_def Let_def split_beta field_setState get_prop_def lookup_def
        nullish_def)
  note T = stopCasting_success_clears_session_only[OF h, of "''r2''"
      "fst (stopCasting_begin c ''r2'')" "VObj 100 Plain []"]
  have a: "snd (stopCasting_begin c ''r2'') = None"
    using T by blast
  have b: "field (fst (stopCasting_resume (fst (stopCasting_begin c ''r2'')) (Resolves (VObj 100 Plain []))))
      ''sessionId'' = VNull"
    using T by blast
  show ?thesis
    using h a b unfolding c_def
    by (simp add: exec_def initial_config_def split_beta split: option.splits)
qed

text \<open>
  Claim C3 as stated fails: after a successful \<open>stopCasting()\<close> the device that was
  cast to is still listed with \<open>isConnected = true\<close>; the \<open>devices\<close> list is not
  touched. And a session whose \<open>sessionId\<close> is the empty string (not \<open>null\<close>, and
  accepted by the schema) is not stopped at all: the guard \<open>!sessionId\<close> returns first.
\<close>

theorem stop_leaves_device_connected:
  "field (fst (exec initial_config
      [Event (VObj 101 Plain [(''type'', VStr ''CAST_DEVICES_UPDATED''),
        (''payload'', VObj 102 Plain [(''devices'', VObj 103 Arr
           [(''0'', VObj 104 Plain [(''id'', VStr ''tv1''), (''name'', VStr ''TV 1''),
               (''type'', VStr ''chromecast''), (''isConnected'', VBool True)])])])]),
       Event (VObj 105 Plain [(''type'', VStr ''CAST_SESSION_UPDATED''),
        (''payload'', VObj 106 Plain [(''status'', VStr ''connected''), (''deviceId'', VStr ''tv1''),
           (''deviceName'', VStr ''TV 1''), (''sessionId'', VStr ''s1''), (''error'', VNull)])])])) ''deviceId'' = VStr ''tv1''
   \<and> field (fst (exec initial_config
      [Event (VObj 101 Plain [(''type'', VStr ''CAST_DEVICES_UPDATED''),
        (''payload'', VObj 102 Plain [(''devices'', VObj 103 Arr
           [(''0'', VObj 104 Plain [(''id'', VStr ''tv1''), (''name'', VStr ''TV 1''),
               (''type'', VStr ''chromecast''), (''isConnected'', VBool True)])])])]),
       Event (VObj 105 Plain [(''type'', VStr ''CAST_SESSION_UPDATED''),
        (''payload'', VObj 106 Plain [(''status'', VStr ''connected''), (''deviceId'', VStr ''tv1''),
           (''deviceName'', VStr ''TV 1''), (''sessionId'', VStr ''s1''), (''error'', VNull)])])])) ''sessionId'' = VStr ''s1''
   \<and> snd (exec initial_config
      [Event (VObj 101 Plain [(''type'', VStr ''CAST_DEVICES_UPDATED''),
        (''payload'', VObj 102 Plain [(''devices'', VObj 103 Arr
           [(''0'', VObj 104 Plain [(''id'', VStr ''tv1''), (''name'', VStr ''TV 1''),
               (''type'', VStr ''chromecast''), (''isConnected'', VBool True)])])])]),
       Event (VObj 105 Plain [(''type'', VStr ''CAST_SESSION_UPDATED''),
        (''payload'', VObj 106 Plain [(''status'', VStr ''connected''), (''deviceId'', VStr ''tv1''),
           (''deviceName'', VStr ''TV 1''), (''sessionId'', VStr ''s1''), (''error'', VNull)])]),
       Call StopCasting ''r2'',
       Settle 0 (Resolves (VObj 100 Plain []))]) = []
   \<and> field (fst (exec initial_config
      [Event (VObj 101 Plain [(''type'', VStr ''CAST_DEVICES_UPDATED''),
        (''payload'', VObj 102 Plain [(''devices'', VObj 103 Arr
           [(''0'', VObj 104 Plain [(''id'', VStr ''tv1''), (''name'', VStr ''TV 1''),
               (''type'', VStr ''chromecast''), (''isConnected'', VBool True)])])])]),
       Event (VObj 105 Plain [(''type'', VStr ''CAST_SESSION_UPDATED''),
        (''payload'', VObj 106 Plain [(''status'', VStr ''connected''), (''deviceId'', VStr ''tv1''),
           (''deviceName'', VStr ''TV 1''), (''sessionId'', VStr ''s1''), (''error'', VNull)])]),
       Call StopCasting ''r2'',
       Settle 0 (Resolves (VObj 100 Plain []))])) ''sessionId'' = VNull
   \<and> get_prop (get_prop (field (fst (exec initial_config
      [Event (VObj 101 Plain [(''type'', VStr ''CAST_DEVICES_UPDATED''),
        (''payload'', VObj 102 Plain [(''devices'', VObj 103 Arr
           [(''0'', VObj 104 Plain [(''id'', VStr ''tv1''), (''name'', VStr ''TV 1''),
               (''type'', VStr ''chromecast''), (''isConnected'', VBool True)])])])]),
       Event (VObj 105 Plain [(''type'', VStr ''CAST_SESSION_UPDATED''),
        (''payload'', VObj 106 Plain [(''status'', VStr ''connected''), (''deviceId'', VStr ''tv1''),
           (''deviceName'', VStr ''TV 1''), (''sessionId'', VStr ''s1''), (''error'', VNull)])]),
       Call StopCasting ''r2'',
       Settle 0 (Resolves (VObj 100 Plain []))])) ''devices'') ''0'') ''id'' = VStr ''tv1''
   \<and> get_prop (get_prop (field (fst (exec initial_config
      [Event (VObj 101 Plain [(''type'', VStr ''CAST_DEVICES_UPDATED''),
        (''payload'', VObj 102 Plain [(''devices'', VObj 103 Arr
           [(''0'', VObj 104 Plain [(''id'', VStr ''tv1''), (''name'', VStr ''TV 1''),
               (''type'', VStr ''chromecast''), (''isConnected'', VBool True)])])])]),
       Event (VObj 105 Plain [(''type'', VStr ''CAST_SESSION_UPDATED''),
        (''payload'', VObj 106 Plain [(''status'', VStr ''connected''), (''deviceId'', VStr ''tv1''),
           (''deviceName'', VStr ''TV 1''), (''sessionId'', VStr ''s1''), (''error'', VNull)])]),
       Call StopCasting ''r2'',
       Settle 0 (Resolves (VObj 100 Plain []))])) ''devices'') ''0'') ''isConnected'' = VBool True
   \<and> validateMessage
      (VObj 107 Plain [(''type'', VStr ''CAST_SESSION_UPDATED''),
        (''payload'', VObj 108 Plain [(''status'', VStr ''connected''), (''deviceId'', VStr ''tv1''),
           (''deviceName'', VStr ''TV 1''), (''sessionId'', VStr []), (''error'', VNull)])])
   \<and> field (fst (exec initial_config
      [Event (VObj 107 Plain [(''type'', VStr ''CAST_SESSION_UPDATED''),
        (''payload'', VObj 108 Plain [(''status'', VStr ''connected''), (''deviceId'', VStr ''tv1''),
           (''deviceName'', VStr ''TV 1''), (''sessionId'', VStr []), (''error'', VNull)])])])) ''sessionId'' \<noteq> VNull
   \<and> snd (exec initial_config
      [Event (VObj 107 Plain [(''type'', VStr ''CAST_SESSION_UPDATED''),
        (''payload'', VObj 108 Plain [(''status'', VStr ''connected''), (''deviceId'', VStr ''tv1''),
           (''deviceName'', VStr ''TV 1''), (''sessionId'', VStr []), (''error'', VNull)])]),
       Call StopCasting ''r3'']) = []
   \<and> field (fst (exec initial_config
      [Event (VObj 107 Plain [(''type'', VStr ''CAST_SESSION_UPDATED''),
        (''payload'', VObj 108 Plain [(''status'', VStr ''connected''), (''deviceId'', VStr ''tv1''),
           (''deviceName'', VStr ''TV 1''), (''sessionId'', VStr []), (''error'', VNull)])]),
       Call StopCasting ''r3''])) ''isCasting'' = VBool True"
  by (simp add: exec_def initial_config_def onMessage_def Let_def split_beta field_setState
      get_prop_def lookup_def nullish_def stopCasting_begin_snd field_stop_resume
      validateMessage_def castSessionUpdatedSchema_def baseMessageSchema_extend_def
      z_literal_def z_enum_def z_optional_def
      split: option.splits)

text \<open>
  Claim C7 as stated fails: after \<open>scanForDevices()\<close> and a successful ack, with no
  \<open>CAST_DEVICES_UPDATED\<close> event, \<open>isScanning\<close> is still true.
\<close>

theorem scan_ack_leaves_scanning:
  "snd (exec initial_config
      [Call ScanForDevices ''r1'', Settle 0 (Resolves (VObj 100 Plain []))]) = []
   \<and> field (fst (exec initial_config
      [Call ScanForDevices ''r1'', Settle 0 (Resolves (VObj 100 Plain []))])) ''isScanning''
       = VBool True"
  by (simp add: exec_def initial_config_def field_scan_begin field_scan_resume)

theorem scanning_set_before_send_and_cleared_by_event_witness:
  "field (scanForDevices_begin (fst initial_config) ''r1'') ''isScanning'' = VBool True
   \<and> field (fst (onMessage (scanForDevices_begin (fst initial_config) ''r1'')
        (VObj 101 Plain [(''type'', VStr ''CAST_DEVICES_UPDATED''),
        (''payload'', VObj 102 Plain [(''devices'', VObj 103 Arr
           [(''0'', VObj 104 Plain [(''id'', VStr ''tv1''), (''name'', VStr ''TV 1''),
               (''type'', VStr ''chromecast''), (''isConnected'', VBool True)])])])]))) ''isScanning'' = VBool False"
proof -
  define m where "m = VObj 101 Plain [(''type'', VStr ''CAST_DEVICES_UPDATED''),
        (''payload'', VObj 102 Plain [(''devices'', VObj 103 Arr
           [(''0'', VObj 104 Plain [(''id'', VStr ''tv1''), (''name'', VStr ''TV 1''),
               (''type'', VStr ''chromecast''), (''isConnected'', VBool True)])])])]"
  have t: "get_prop m ''type'' = VStr ''CAST_DEVICES_UPDATED''"
    and p: "\<not> nullish (get_prop m ''payload'')"
    by (simp_all add: m_def get_prop_def lookup_def nullish_def)
  note T = scanning_set_before_send_and_cleared_by_event[of "fst initial_config" "''r1''"
      "scanForDevices_begin (fst initial_config) ''r1''" VUndef m VUndef]
  have a: "field (scanForDevices_begin (fst initial_config) ''r1'') ''isScanning'' = VBool True"
    using T by blast
  have b: "field (fst (onMessage (scanForDevices_begin (fst initial_config) ''r1'') m))
      ''isScanning'' = VBool False"
    using T t p by blast
  show ?thesis
    using a b unfolding m_def by blast
qed

end
